theory Spec2Isabelle
  imports Complex_Main
begin

section \<open>Strings as the translator uses them\<close>

text \<open>
  A JavaScript string is modelled as a \<^typ>\<open>string\<close>: each \<^typ>\<open>char\<close> stands for one
  code unit in the range U+0000 .. U+00FF. The functions below are the methods of
  \<^verbatim>\<open>String.prototype\<close> that \<^verbatim>\<open>parseSubtitleContent\<close>, \<^verbatim>\<open>convertCuesToVTT\<close> and
  \<^verbatim>\<open>translateSubtitle\<close> call.
\<close>

definition is_space :: "char \<Rightarrow> bool" where
  \<comment> \<open>the WhiteSpace and LineTerminator code units below U+0100:
      TAB, LF, VT, FF, CR, SP and NBSP\<close>
  "is_space c = (of_char c \<in> {9, 10, 11, 12, 13, 32, 160 :: nat})"

definition is_digit :: "char \<Rightarrow> bool" where
  \<comment> \<open>the class \<^verbatim>\<open>\d\<close> of a regular expression without the unicode flag\<close>
  "is_digit c = (48 \<le> (of_char c :: nat) \<and> (of_char c :: nat) \<le> 57)"

definition trim :: "string \<Rightarrow> string" where
  \<comment> \<open>\<^verbatim>\<open>s.trim()\<close>\<close>
  "trim s = rev (dropWhile is_space (rev (dropWhile is_space s)))"

definition startsWith :: "string \<Rightarrow> string \<Rightarrow> bool" where
  \<comment> \<open>\<^verbatim>\<open>s.startsWith(p)\<close>\<close>
  "startsWith s p = (take (length p) s = p)"

function split :: "string \<Rightarrow> string \<Rightarrow> string list" where
  \<comment> \<open>\<^verbatim>\<open>s.split(sep)\<close> for a string separator: the separator is searched from left to
      right and matches do not overlap; an empty separator is never passed by the code\<close>
  "split s sep =
     (if s = [] then [[]]
      else if sep \<noteq> [] \<and> startsWith s sep then [] # split (drop (length sep) s) sep
      else (case split (tl s) sep of
              [] \<Rightarrow> [[hd s]]
            | x # xs \<Rightarrow> (hd s # x) # xs))"
  by pat_completeness auto
termination
  by (relation "measure (\<lambda>(s, sep). length s)") (auto simp: startsWith_def)

declare split.simps [simp del]

fun join :: "string list \<Rightarrow> string \<Rightarrow> string" where
  \<comment> \<open>\<^verbatim>\<open>xs.join(sep)\<close>\<close>
  "join [] sep = []"
| "join [x] sep = x"
| "join (x # y # ys) sep = x @ sep @ join (y # ys) sep"

definition digit_char :: "nat \<Rightarrow> char" where
  "digit_char d = ''0123456789'' ! d"

function digits :: "nat \<Rightarrow> string" where
  \<comment> \<open>the decimal numeral of a non-negative integer, as a template literal renders it\<close>
  "digits n =
     (if n < 10 then [digit_char n]
      else digits (n div 10) @ [digit_char (n mod 10)])"
  by pat_completeness auto
termination
  by (relation "measure id") auto

declare digits.simps [simp del]

definition newline :: string where
  "newline = [CHR 0x0A]"

section \<open>Cues\<close>

text \<open>
  A cue is the object literal \<^verbatim>\<open>{start, end, text}\<close>. The VTT parser stores the two
  matched timestamp strings; the SRT parser of the \<^verbatim>\<open>subtitle\<close> package stores numbers
  of milliseconds. Both are only ever read by the template literal of
  \<^verbatim>\<open>convertCuesToVTT\<close>.
\<close>

datatype timeval = TimeStr string | TimeMs nat

fun show_time :: "timeval \<Rightarrow> string" where
  "show_time (TimeStr s) = s"
| "show_time (TimeMs n) = digits n"

record cue =
  start :: timeval
  "end" :: timeval
  "text" :: string

section \<open>The timing line\<close>

text \<open>
  The regular expression of line 88,
  \<^verbatim>\<open>/(\d{2}:\d{2}:\d{2}\.\d{3}|\d{2}:\d{2}\.\d{3}) --> (\d{2}:\d{2}:\d{2}\.\d{3}|\d{2}:\d{2}\.\d{3})/\<close>,
  is a sequence of single-character tests, with two alternatives for each group.
  \<^verbatim>\<open>line.match\<close> returns the leftmost match; at one position the alternatives are tried
  in the order written, the second group varying fastest (backtracking).
\<close>

datatype tok = Digit | Lit char

fun tok_ok :: "tok \<Rightarrow> char \<Rightarrow> bool" where
  "tok_ok Digit c = is_digit c"
| "tok_ok (Lit l) c = (c = l)"

fun matches_at :: "tok list \<Rightarrow> string \<Rightarrow> bool" where
  "matches_at [] s = True"
| "matches_at (t # ts) [] = False"
| "matches_at (t # ts) (c # s) = (tok_ok t c \<and> matches_at ts s)"

definition ts_long :: "tok list" where
  "ts_long = [Digit, Digit, Lit CHR '':'', Digit, Digit, Lit CHR '':'', Digit, Digit,
              Lit CHR ''.'', Digit, Digit, Digit]"

definition ts_short :: "tok list" where
  "ts_short = [Digit, Digit, Lit CHR '':'', Digit, Digit, Lit CHR ''.'', Digit, Digit, Digit]"

definition arrow :: "tok list" where
  "arrow = map Lit '' --> ''"

definition timing_alternatives :: "(tok list \<times> tok list) list" where
  "timing_alternatives =
     [(ts_long, ts_long), (ts_long, ts_short), (ts_short, ts_long), (ts_short, ts_short)]"

fun first_alternative :: "(tok list \<times> tok list) list \<Rightarrow> string \<Rightarrow> (string \<times> string) option" where
  "first_alternative [] s = None"
| "first_alternative ((p1, p2) # alts) s =
     (if matches_at (p1 @ arrow @ p2) s
      then Some (take (length p1) s, take (length p2) (drop (length p1 + length arrow) s))
      else first_alternative alts s)"

definition timing_at :: "string \<Rightarrow> (string \<times> string) option" where
  "timing_at s = first_alternative timing_alternatives s"

fun timingMatch :: "string \<Rightarrow> (string \<times> string) option" where
  "timingMatch [] = timing_at []"
| "timingMatch (c # s) =
     (case timing_at (c # s) of
        Some m \<Rightarrow> Some m
      | None \<Rightarrow> timingMatch s)"

definition all_digits :: "string \<Rightarrow> bool" where
  \<comment> \<open>\<^verbatim>\<open>line.match(/^\d+$/)\<close>\<close>
  "all_digits s = (s \<noteq> [] \<and> (\<forall>c \<in> set s. is_digit c))"

section \<open>Decoding and encoding\<close>

text \<open>
  The loop of \<^verbatim>\<open>parseSubtitleContent\<close> for the format \<^verbatim>\<open>'vtt'\<close>, over the lines that are
  left, with \<^verbatim>\<open>currentCue\<close> (\<open>None\<close> for \<^verbatim>\<open>null\<close>) and the array \<^verbatim>\<open>cues\<close>. A line that
  starts with NOTE makes the inner \<^verbatim>\<open>while\<close> run to the next blank line, and the
  \<^verbatim>\<open>continue\<close> with the \<^verbatim>\<open>i++\<close> of the \<^verbatim>\<open>for\<close> steps over that blank line too.
\<close>

definition push_cue :: "cue option \<Rightarrow> cue list \<Rightarrow> cue list" where
  "push_cue cur cues = (case cur of None \<Rightarrow> cues | Some c \<Rightarrow> cues @ [c])"

definition add_line :: "string \<Rightarrow> cue \<Rightarrow> cue" where
  \<comment> \<open>\<^verbatim>\<open>currentCue.text += (currentCue.text ? '\n' : '') + line\<close>\<close>
  "add_line line c = c\<lparr>text := text c @ (if text c \<noteq> [] then newline else []) @ line\<rparr>"

function vtt_loop :: "string list \<Rightarrow> cue option \<Rightarrow> cue list \<Rightarrow> cue list" where
  "vtt_loop [] cur cues = push_cue cur cues"
| "vtt_loop (raw # rest) cur cues =
     (let line = trim raw in
      if line = [] \<or> line = ''WEBVTT'' then vtt_loop rest cur cues
      else if startsWith line ''NOTE''
        then vtt_loop (drop 1 (dropWhile (\<lambda>l. trim l \<noteq> []) (raw # rest))) cur cues
      else (case timingMatch line of
              Some (s, e) \<Rightarrow>
                vtt_loop rest (Some \<lparr>start = TimeStr s, end = TimeStr e, text = []\<rparr>)
                  (push_cue cur cues)
            | None \<Rightarrow>
                (case cur of
                   Some c \<Rightarrow>
                     if \<not> all_digits line then vtt_loop rest (Some (add_line line c)) cues
                     else vtt_loop rest cur cues
                 | None \<Rightarrow> vtt_loop rest cur cues)))"
  by pat_completeness auto
termination
proof (relation "measure (\<lambda>(ls, cur, cues). length ls)", goal_cases)
  case (3 raw rest cur cues line)
  have "length (dropWhile (\<lambda>l. trim l \<noteq> []) (raw # rest)) \<le> Suc (length rest)"
    using length_dropWhile_le [of "\<lambda>l. trim l \<noteq> []" "raw # rest"] by simp
  then show ?case by simp
qed auto

declare vtt_loop.simps [simp del]

datatype format = Vtt | Srt

definition parseSubtitleContent ::
  "(string \<Rightarrow> cue list option) \<Rightarrow> string \<Rightarrow> format \<Rightarrow> cue list" where
  \<comment> \<open>\<open>parseSRT\<close> is \<^verbatim>\<open>parse\<close> of the package \<^verbatim>\<open>subtitle\<close>, \<open>None\<close> when it throws:
      the \<^verbatim>\<open>catch\<close> of line 115 then returns the empty array\<close>
  "parseSubtitleContent parseSRT content fmt =
     (case fmt of
        Srt \<Rightarrow> (case parseSRT content of None \<Rightarrow> [] | Some cues \<Rightarrow> cues)
      | Vtt \<Rightarrow> vtt_loop (split content newline) None [])"

definition cue_block :: "nat \<Rightarrow> cue \<Rightarrow> string" where
  \<comment> \<open>what one round of the \<^verbatim>\<open>forEach\<close> of \<^verbatim>\<open>convertCuesToVTT\<close> appends\<close>
  "cue_block index c =
     digits (index + 1) @ newline
     @ show_time (start c) @ '' --> '' @ show_time (end c) @ newline
     @ text c @ newline @ newline"

fun cue_blocks :: "nat \<Rightarrow> cue list \<Rightarrow> string" where
  "cue_blocks index [] = []"
| "cue_blocks index (c # cs) = cue_block index c @ cue_blocks (Suc index) cs"

definition convertCuesToVTT :: "cue list \<Rightarrow> string" where
  "convertCuesToVTT cues = ''WEBVTT'' @ newline @ newline @ cue_blocks 0 cues"

section \<open>The request for one batch\<close>

definition languageMap :: "(string \<times> string) list" where
  "languageMap =
     [(''en'', ''English''), (''el'', ''Greek''), (''fr'', ''French''), (''es'', ''Spanish''),
      (''de'', ''German''), (''it'', ''Italian''), (''pt'', ''Portuguese''), (''ru'', ''Russian''),
      (''ja'', ''Japanese''), (''ko'', ''Korean''), (''zh'', ''Chinese''), (''ar'', ''Arabic''),
      (''hi'', ''Hindi''), (''tr'', ''Turkish''), (''nl'', ''Dutch''), (''sv'', ''Swedish''),
      (''pl'', ''Polish''), (''da'', ''Danish''), (''fi'', ''Finnish''), (''no'', ''Norwegian''),
      (''cs'', ''Czech''), (''hu'', ''Hungarian''), (''ro'', ''Romanian''), (''bg'', ''Bulgarian''),
      (''hr'', ''Croatian''), (''sr'', ''Serbian''), (''sk'', ''Slovak''), (''sl'', ''Slovenian''),
      (''uk'', ''Ukrainian''), (''vi'', ''Vietnamese''), (''th'', ''Thai''), (''id'', ''Indonesian''),
      (''ms'', ''Malay''), (''he'', ''Hebrew''), (''fa'', ''Persian'')]"

definition getLanguageName :: "string \<Rightarrow> string" where
  \<comment> \<open>\<^verbatim>\<open>languageMap[langCode] || langCode\<close>, for the own properties of the table\<close>
  "getLanguageName langCode =
     (case map_of languageMap langCode of Some name \<Rightarrow> name | None \<Rightarrow> langCode)"

definition separator :: string where
  \<comment> \<open>\<^verbatim>\<open>'\n---\n'\<close>\<close>
  "separator = newline @ ''---'' @ newline"

definition prompt :: "string \<Rightarrow> string \<Rightarrow> string list \<Rightarrow> string" where
  "prompt sourceLang targetLang textsToTranslate =
     ''Translate the following subtitles from '' @ getLanguageName sourceLang @ '' to ''
     @ getLanguageName targetLang @ ''. '' @ newline
     @ ''Keep the same meaning and tone. Return ONLY the translations in order, one per line, with no additional text:''
     @ newline @ newline @ join textsToTranslate separator"

text \<open>
  What \<^verbatim>\<open>axios.post\<close> and the reading of its answer can come to (lines 196 to 222):
  the promise is rejected (network, authentication, HTTP status); the envelope fails the
  check of line 216; the first part or its \<^verbatim>\<open>text\<close> is missing, so that line 222 or the
  \<^verbatim>\<open>split\<close> of line 225 throws a TypeError; or there is a text.
\<close>

datatype response = Rejected | NoCandidate | NoText | Text string

datatype error = RequestFailed | InvalidResponse | TypeError

definition reconcile :: "string list \<Rightarrow> string \<Rightarrow> string list" where
  \<comment> \<open>lines 225 to 240: from the texts of the batch and the text of the model to the
      array the callback returns\<close>
  "reconcile textsToTranslate translatedText =
     (let translations = split translatedText separator in
      if length translations \<noteq> length textsToTranslate then
        (let simpleSplit = filter (\<lambda>line. trim line \<noteq> []) (split translatedText newline) in
         if length simpleSplit \<ge> length textsToTranslate
         then take (length textsToTranslate) simpleSplit
         else textsToTranslate)
      else translations)"

definition translateBatch ::
  "(nat \<Rightarrow> string \<Rightarrow> response) \<Rightarrow> string \<Rightarrow> string \<Rightarrow> nat \<Rightarrow> cue list \<Rightarrow> error + string list" where
  \<comment> \<open>the callback of line 183; \<open>post batchIndex request\<close> is the answer to the request
      of that batch\<close>
  "translateBatch post sourceLang targetLang batchIndex batch =
     (let textsToTranslate = map text batch in
      case post batchIndex (prompt sourceLang targetLang textsToTranslate) of
        Rejected \<Rightarrow> Inl RequestFailed
      | NoCandidate \<Rightarrow> Inl InvalidResponse
      | NoText \<Rightarrow> Inl TypeError
      | Text translatedText \<Rightarrow> Inr (reconcile textsToTranslate translatedText))"

section \<open>Batches and reassembly\<close>

definition batchSize :: nat where
  "batchSize = 10"

function slices :: "nat \<Rightarrow> cue list \<Rightarrow> cue list list" where
  \<comment> \<open>the loop of line 176, from index \<open>i\<close> on: \<open>drop i cues\<close> is what is left\<close>
  "slices i cues =
     (if i < length cues
      then take batchSize (drop i cues) # slices (i + batchSize) cues
      else [])"
  by pat_completeness auto
termination
  by (relation "measure (\<lambda>(i, cues). length cues - i)") (auto simp: batchSize_def)

declare slices.simps [simp del]

fun all_results :: "(error + 'a) list \<Rightarrow> error + 'a list" where
  \<comment> \<open>\<^verbatim>\<open>Promise.all\<close>: the array of the results, or a rejection when a promise is rejected
      (the handler of line 261 does not look at which one)\<close>
  "all_results [] = Inr []"
| "all_results (r # rs) =
     (case r of
        Inl e \<Rightarrow> Inl e
      | Inr x \<Rightarrow> (case all_results rs of Inl e \<Rightarrow> Inl e | Inr xs \<Rightarrow> Inr (x # xs)))"

definition apply_translation :: "string \<Rightarrow> cue list \<times> nat \<Rightarrow> cue list \<times> nat" where
  \<comment> \<open>the body of the inner \<^verbatim>\<open>forEach\<close> of line 246 on \<^verbatim>\<open>(cues, translatedCueIndex)\<close>\<close>
  "apply_translation translation st =
     (case st of (cues, translatedCueIndex) \<Rightarrow>
        if translatedCueIndex < length cues
        then (cues[translatedCueIndex := (cues ! translatedCueIndex)\<lparr>text := trim translation\<rparr>],
              translatedCueIndex + 1)
        else (cues, translatedCueIndex))"

definition apply_translations :: "string list list \<Rightarrow> cue list \<Rightarrow> cue list" where
  \<comment> \<open>lines 244 to 252\<close>
  "apply_translations translatedBatches cues =
     fst (fold (\<lambda>batchTranslations st. fold apply_translation batchTranslations st)
            translatedBatches (cues, 0))"

definition requests :: "string \<Rightarrow> string \<Rightarrow> cue list \<Rightarrow> string list" where
  \<comment> \<open>the requests that the \<^verbatim>\<open>map\<close> of line 183 sends, one for each batch: every callback
      runs to its \<^verbatim>\<open>await axios.post\<close> before any answer is looked at\<close>
  "requests sourceLang targetLang cues =
     map (\<lambda>batch. prompt sourceLang targetLang (map text batch)) (slices 0 cues)"

definition translateCues ::
  "(nat \<Rightarrow> string \<Rightarrow> response) \<Rightarrow> string \<Rightarrow> string \<Rightarrow> cue list \<Rightarrow> error + cue list" where
  \<comment> \<open>lines 172 to 252: the cues after the translations are applied, or the exception\<close>
  "translateCues post sourceLang targetLang cues =
     (let batches = slices 0 cues in
      case all_results
             (map (\<lambda>(batchIndex, batch). translateBatch post sourceLang targetLang batchIndex batch)
                (enumerate 0 batches)) of
        Inl e \<Rightarrow> Inl e
      | Inr translatedBatches \<Rightarrow> Inr (apply_translations translatedBatches cues))"

section \<open>The translation cache\<close>

text \<open>
  Modelled from the spec: the package \<^verbatim>\<open>node-cache\<close> behind
  \<^verbatim>\<open>new NodeCache({ stdTTL: 86400 })\<close> (line 7) is not among the sources. The spec gives
  the cache \<^verbatim>\<open>get\<close>, \<^verbatim>\<open>put\<close> and a time to live after which no entry is observable,
  with eviction checked on lookup. An entry holds its value and the time, in
  milliseconds, until which it lives. \<^verbatim>\<open>get\<close> at time \<open>now\<close> answers with the value of an
  entry that is there and has not expired, and deletes an expired one; \<^verbatim>\<open>set\<close> at time
  \<open>now\<close> stores the value to live for \<open>stdTTL\<close> seconds.
\<close>

type_synonym cache = "string \<rightharpoonup> string \<times> nat"

definition stdTTL :: nat where
  "stdTTL = 86400"

definition cache_get :: "nat \<Rightarrow> cache \<Rightarrow> string \<Rightarrow> string option \<times> cache" where
  "cache_get now c key =
     (case c key of
        None \<Rightarrow> (None, c)
      | Some (v, t) \<Rightarrow> if t < now then (None, c(key := None)) else (Some v, c))"

definition cache_set :: "nat \<Rightarrow> cache \<Rightarrow> string \<Rightarrow> string \<Rightarrow> cache" where
  "cache_set now c key v = c(key \<mapsto> (v, now + stdTTL * 1000))"

section \<open>translateSubtitle\<close>

text \<open>
  The parameters that stand for the world: \<open>digest\<close> is the MD5 hex digest of
  \<^verbatim>\<open>crypto.createHash('md5')\<close>, \<open>parseSRT\<close> the parser of the package \<^verbatim>\<open>subtitle\<close>,
  \<open>post\<close> the answers of the model to the requests of this call, \<open>t_get\<close> and \<open>t_set\<close>
  the times of the clock at the lookup and at the write. The state is the cache. The
  result holds the string the promise resolves to, the cache afterwards and the requests
  sent to the model.
\<close>

record outcome =
  returned :: string
  cache_after :: cache
  sent :: "string list"

definition cacheKey :: "(string \<Rightarrow> string) \<Rightarrow> string \<Rightarrow> string \<Rightarrow> string \<Rightarrow> string" where
  "cacheKey digest content sourceLang targetLang =
     digest content @ ''_'' @ sourceLang @ ''_'' @ targetLang"

definition detect_format :: "string \<Rightarrow> format" where
  \<comment> \<open>line 162\<close>
  "detect_format content = (if startsWith (trim content) ''WEBVTT'' then Vtt else Srt)"

definition truthy :: "string option \<Rightarrow> bool" where
  \<comment> \<open>\<^verbatim>\<open>if (cachedTranslation)\<close>: neither \<^verbatim>\<open>undefined\<close> nor the empty string\<close>
  "truthy v = (v \<noteq> None \<and> v \<noteq> Some [])"

definition try_block ::
  "(string \<Rightarrow> cue list option) \<Rightarrow> (nat \<Rightarrow> string \<Rightarrow> response) \<Rightarrow> nat \<Rightarrow> cache
   \<Rightarrow> string \<Rightarrow> string \<Rightarrow> string \<Rightarrow> string \<Rightarrow> string list \<times> (error + string \<times> cache)" where
  \<comment> \<open>the \<^verbatim>\<open>try\<close> block of lines 160 to 260: the requests it sends, and either the
      exception it throws or the string it returns with the cache it leaves\<close>
  "try_block parseSRT post t_set c key content sourceLang targetLang =
     (let fmt = detect_format content;
          cues = parseSubtitleContent parseSRT content fmt in
      if length cues = 0 then ([], Inr (content, c))
      else
        (requests sourceLang targetLang cues,
         case translateCues post sourceLang targetLang cues of
           Inl e \<Rightarrow> Inl e
         | Inr translated \<Rightarrow>
             (let translatedContent = convertCuesToVTT translated in
              Inr (translatedContent, cache_set t_set c key translatedContent))))"

definition translateSubtitle ::
  "(string \<Rightarrow> string) \<Rightarrow> (string \<Rightarrow> cue list option) \<Rightarrow> (nat \<Rightarrow> string \<Rightarrow> response)
   \<Rightarrow> nat \<Rightarrow> nat \<Rightarrow> cache \<Rightarrow> string \<Rightarrow> string \<Rightarrow> string \<Rightarrow> outcome" where
  "translateSubtitle digest parseSRT post t_get t_set c content sourceLang targetLang =
     (let key = cacheKey digest content sourceLang targetLang;
          (cachedTranslation, c1) = cache_get t_get c key in
      if truthy cachedTranslation
      then \<lparr>returned = the cachedTranslation, cache_after = c1, sent = []\<rparr>
      else
        (case try_block parseSRT post t_set c1 key content sourceLang targetLang of
           (reqs, Inr (result, c2)) \<Rightarrow> \<lparr>returned = result, cache_after = c2, sent = reqs\<rparr>
         | (reqs, Inl e) \<Rightarrow> \<lparr>returned = content, cache_after = c1, sent = reqs\<rparr>))"

section \<open>SRT timestamps in seconds\<close>

text \<open>
  \<open>formatSrtTimestamp\<close> and \<open>parseSrtTimestamp\<close> of \<^verbatim>\<open>lib/utils.js\<close> compute with the
  numbers of JavaScript, IEEE 754 binary64. A finite double is modelled by the rational
  it denotes. \<open>to_double\<close> rounds a rational to the nearest double, ties to even, with a
  significand of 53 bits; it is exact for the normal range (magnitudes from \<open>2^-1022\<close> up
  to the largest double), which holds every value that a timestamp of two digits of hours
  leads to. \<^verbatim>\<open>+\<close>, \<^verbatim>\<open>*\<close> and \<^verbatim>\<open>/\<close> round their exact result; \<^verbatim>\<open>%\<close> and
  \<^verbatim>\<open>Math.floor\<close> are exact.
\<close>

function ilog2 :: "int \<Rightarrow> int" where
  \<comment> \<open>the position of the leading bit of a positive integer\<close>
  "ilog2 n = (if n \<le> 1 then 0 else 1 + ilog2 (n div 2))"
  by pat_completeness auto
termination
  by (relation "measure nat") auto

declare ilog2.simps [simp del]

definition pow2 :: "int \<Rightarrow> rat" where
  "pow2 e = (if 0 \<le> e then 2 ^ nat e else 1 / 2 ^ nat (- e))"

definition binade :: "rat \<Rightarrow> int" where
  \<comment> \<open>for \<open>q > 0\<close>, the \<open>e\<close> with \<open>2^e \<le> q < 2^(e+1)\<close>\<close>
  "binade q =
     (let (a, b) = quotient_of q; e0 = ilog2 a - ilog2 b
      in if pow2 e0 \<le> q then e0 else e0 - 1)"

definition round_half_even :: "rat \<Rightarrow> int" where
  "round_half_even x =
     (let f = \<lfloor>x\<rfloor>; r = x - of_int f
      in if r < 1 / 2 then f else if 1 / 2 < r then f + 1 else if even f then f else f + 1)"

definition round_positive :: "rat \<Rightarrow> rat" where
  "round_positive q =
     (let ulp = pow2 (binade q - 52) in of_int (round_half_even (q / ulp)) * ulp)"

definition to_double :: "rat \<Rightarrow> rat" where
  "to_double q =
     (if q = 0 then 0 else if q < 0 then - round_positive (- q) else round_positive q)"

definition fadd :: "rat \<Rightarrow> rat \<Rightarrow> rat" where
  "fadd a b = to_double (a + b)"

definition fmul :: "rat \<Rightarrow> rat \<Rightarrow> rat" where
  "fmul a b = to_double (a * b)"

definition fdiv :: "rat \<Rightarrow> rat \<Rightarrow> rat" where
  \<comment> \<open>the divisors of the code are the constants 3600, 60 and 1000\<close>
  "fdiv a b = to_double (a / b)"

definition fmod :: "rat \<Rightarrow> rat \<Rightarrow> rat" where
  \<comment> \<open>\<^verbatim>\<open>a % b\<close>: the remainder of the division truncated towards zero, which is exact\<close>
  "fmod a b = a - b * of_int (if 0 \<le> a / b then \<lfloor>a / b\<rfloor> else \<lceil>a / b\<rceil>)"

definition padStart :: "nat \<Rightarrow> string \<Rightarrow> string" where
  \<comment> \<open>\<^verbatim>\<open>s.padStart(n, '0')\<close>\<close>
  "padStart n s = replicate (n - length s) CHR ''0'' @ s"

definition show_int :: "int \<Rightarrow> string" where
  \<comment> \<open>\<^verbatim>\<open>String(x)\<close> for a double that is an integer below \<open>10^21\<close> in magnitude\<close>
  "show_int i = (if i < 0 then ''-'' @ digits (nat (- i)) else digits (nat i))"

definition formatSrtTimestamp :: "rat \<Rightarrow> string" where
  "formatSrtTimestamp seconds =
     (let hours = \<lfloor>fdiv seconds 3600\<rfloor>;
          minutes = \<lfloor>fdiv (fmod seconds 3600) 60\<rfloor>;
          secs = \<lfloor>fmod seconds 60\<rfloor>;
          milliseconds = \<lfloor>fmul (fmod seconds 1) 1000\<rfloor>
      in padStart 2 (show_int hours) @ '':'' @ padStart 2 (show_int minutes) @ '':''
         @ padStart 2 (show_int secs) @ '','' @ padStart 3 (show_int milliseconds))"

definition srt_timestamp :: "tok list" where
  \<comment> \<open>\<^verbatim>\<open>/(\d{2}):(\d{2}):(\d{2}),(\d{3})/\<close>\<close>
  "srt_timestamp = [Digit, Digit, Lit CHR '':'', Digit, Digit, Lit CHR '':'', Digit, Digit,
                    Lit CHR '','', Digit, Digit, Digit]"

fun srt_match :: "string \<Rightarrow> string option" where
  \<comment> \<open>the leftmost match of \<^verbatim>\<open>timestamp.match(regex)\<close>\<close>
  "srt_match [] = None"
| "srt_match (c # s) =
     (if matches_at srt_timestamp (c # s) then Some (take 12 (c # s)) else srt_match s)"

definition parseInt :: "string \<Rightarrow> int" where
  \<comment> \<open>\<^verbatim>\<open>parseInt(s, 10)\<close> for a string of decimal digits\<close>
  "parseInt s = foldl (\<lambda>acc c. acc * 10 + (of_char c - 48)) 0 s"

definition parseSrtTimestamp :: "string \<Rightarrow> rat" where
  "parseSrtTimestamp timestamp =
     (case srt_match timestamp of
        None \<Rightarrow> 0
      | Some m \<Rightarrow>
          (let hours = of_int (parseInt (take 2 m));
               minutes = of_int (parseInt (take 2 (drop 3 m)));
               seconds = of_int (parseInt (take 2 (drop 6 m)));
               milliseconds = of_int (parseInt (take 3 (drop 9 m)))
           in fadd (fadd (fadd (fmul hours 3600) (fmul minutes 60)) seconds)
                (fdiv milliseconds 1000)))"

section \<open>Example documents and worlds\<close>

text \<open>
  The inputs at which the theorems below are instantiated. \<open>md5_examples\<close> gives the MD5
  hex digests of the example documents (the theorems themselves hold for every function
  \<open>digest\<close>).
\<close>

definition example_vtt :: string where
  "example_vtt = ''WEBVTT\<newline>\<newline>1\<newline>00:00:01.000 --> 00:00:05.000\<newline>Hello''"

definition example_empty_vtt :: string where
  "example_empty_vtt = ''WEBVTT\<newline>\<newline>NOTE no cue in this file\<newline>''"

definition example_srt :: string where
  "example_srt = ''1\<newline>00:00:01,000 --> 00:00:05,000\<newline>Hello\<newline>''"

definition example_two :: string where
  "example_two =
     ''WEBVTT\<newline>\<newline>1\<newline>00:00:01.000 --> 00:00:02.000\<newline>Hello\<newline>\<newline>2\<newline>00:00:03.000 --> 00:00:04.000\<newline>Good morning\<newline>\<newline>''"

definition parseSRT_throws :: "string \<Rightarrow> cue list option" where
  "parseSRT_throws content = None"

definition parseSRT_example :: "string \<Rightarrow> cue list option" where
  \<comment> \<open>what the package answers for \<open>example_srt\<close>\<close>
  "parseSRT_example content =
     (if content = example_srt
      then Some [\<lparr>start = TimeMs 1000, end = TimeMs 5000, text = ''Hello''\<rparr>]
      else Some [])"

definition post_rejected :: "nat \<Rightarrow> string \<Rightarrow> response" where
  "post_rejected batchIndex request = Rejected"

definition post_geia :: "nat \<Rightarrow> string \<Rightarrow> response" where
  "post_geia batchIndex request = Text ''Geia''"

definition post_one_line :: "nat \<Rightarrow> string \<Rightarrow> response" where
  \<comment> \<open>a single line, whatever the batch\<close>
  "post_one_line batchIndex request = Text ''Kalimera''"

definition post_two_lines :: "nat \<Rightarrow> string \<Rightarrow> response" where
  \<comment> \<open>two translations, one per line, without the separator\<close>
  "post_two_lines batchIndex request = Text ''Geia\<newline>Kalimera''"

definition example_two_cues :: "cue list" where
  "example_two_cues =
     [\<lparr>start = TimeStr ''00:00:01.000'', end = TimeStr ''00:00:02.000'', text = ''Hello''\<rparr>,
      \<lparr>start = TimeStr ''00:00:03.000'', end = TimeStr ''00:00:04.000'', text = ''Good morning''\<rparr>]"

definition example_eleven :: string where
  \<comment> \<open>eleven cues: two batches\<close>
  "example_eleven =
     ''WEBVTT\<newline>\<newline>1\<newline>00:00:01.000 --> 00:00:01.500\<newline>a1\<newline>\<newline>2\<newline>00:00:02.000 --> 00:00:02.500\<newline>a2\<newline>\<newline>3\<newline>00:00:03.000 --> 00:00:03.500\<newline>a3\<newline>\<newline>4\<newline>00:00:04.000 --> 00:00:04.500\<newline>a4\<newline>\<newline>5\<newline>00:00:05.000 --> 00:00:05.500\<newline>a5\<newline>\<newline>6\<newline>00:00:06.000 --> 00:00:06.500\<newline>a6\<newline>\<newline>7\<newline>00:00:07.000 --> 00:00:07.500\<newline>a7\<newline>\<newline>8\<newline>00:00:08.000 --> 00:00:08.500\<newline>a8\<newline>\<newline>9\<newline>00:00:09.000 --> 00:00:09.500\<newline>a9\<newline>\<newline>10\<newline>00:00:10.000 --> 00:00:10.500\<newline>a10\<newline>\<newline>11\<newline>00:00:11.000 --> 00:00:11.500\<newline>a11\<newline>\<newline>''"

definition example_eleven_cues :: "cue list" where
  "example_eleven_cues =
     [\<lparr>start = TimeStr ''00:00:01.000'', end = TimeStr ''00:00:01.500'', text = ''a1''\<rparr>,
      \<lparr>start = TimeStr ''00:00:02.000'', end = TimeStr ''00:00:02.500'', text = ''a2''\<rparr>,
      \<lparr>start = TimeStr ''00:00:03.000'', end = TimeStr ''00:00:03.500'', text = ''a3''\<rparr>,
      \<lparr>start = TimeStr ''00:00:04.000'', end = TimeStr ''00:00:04.500'', text = ''a4''\<rparr>,
      \<lparr>start = TimeStr ''00:00:05.000'', end = TimeStr ''00:00:05.500'', text = ''a5''\<rparr>,
      \<lparr>start = TimeStr ''00:00:06.000'', end = TimeStr ''00:00:06.500'', text = ''a6''\<rparr>,
      \<lparr>start = TimeStr ''00:00:07.000'', end = TimeStr ''00:00:07.500'', text = ''a7''\<rparr>,
      \<lparr>start = TimeStr ''00:00:08.000'', end = TimeStr ''00:00:08.500'', text = ''a8''\<rparr>,
      \<lparr>start = TimeStr ''00:00:09.000'', end = TimeStr ''00:00:09.500'', text = ''a9''\<rparr>,
      \<lparr>start = TimeStr ''00:00:10.000'', end = TimeStr ''00:00:10.500'', text = ''a10''\<rparr>,
      \<lparr>start = TimeStr ''00:00:11.000'', end = TimeStr ''00:00:11.500'', text = ''a11''\<rparr>]"

definition post_second_rejected :: "nat \<Rightarrow> string \<Rightarrow> response" where
  \<comment> \<open>ten translations for the first batch, a rejected promise for every other one\<close>
  "post_second_rejected batchIndex request =
     (if batchIndex = 0
      then Text ''b1\<newline>---\<newline>b2\<newline>---\<newline>b3\<newline>---\<newline>b4\<newline>---\<newline>b5\<newline>---\<newline>b6\<newline>---\<newline>b7\<newline>---\<newline>b8\<newline>---\<newline>b9\<newline>---\<newline>b10''
      else Rejected)"

definition md5_examples :: "string \<Rightarrow> string" where
  "md5_examples content =
     (if content = example_vtt then ''1b2ed63c1129c77cdc7d5603a93ee4a9''
      else if content = example_empty_vtt then ''cc9f7ca3d06f75cb3f5b574ee8045d5d''
      else if content = example_srt then ''428277a01146779fb4517e14e1a34209''
      else if content = example_two then ''e2d8e35ebdf9d5fc858a620dea17a029''
      else if content = example_eleven then ''42641a6e5ba5f17c7977e4065433a83b''
      else ''d41d8cd98f00b204e9800998ecf8427e'')"

definition post_lines_then_rejected :: "nat \<Rightarrow> string \<Rightarrow> response" where
  \<comment> \<open>ten translations for the first batch, one per line without the separator, and a
      rejected promise for every other batch\<close>
  "post_lines_then_rejected batchIndex request =
     (if batchIndex = 0
      then Text ''b1\<newline>b2\<newline>b3\<newline>b4\<newline>b5\<newline>b6\<newline>b7\<newline>b8\<newline>b9\<newline>b10''
      else Rejected)"



definition example_two_translated :: "cue list" where
  "example_two_translated =
     [\<lparr>start = TimeStr ''00:00:01.000'', end = TimeStr ''00:00:02.000'', text = ''Geia''\<rparr>,
      \<lparr>start = TimeStr ''00:00:03.000'', end = TimeStr ''00:00:04.000'', text = ''Kalimera''\<rparr>]"

section \<open>Cues that the decoder gives back\<close>

text \<open>
  What the loop of \<open>parseSubtitleContent\<close> asks of an encoded cue for it to come back
  unchanged: the timing line must match the regular expression with the two timestamps
  as its groups, and every line of the text must be appended as it is, that is, it is not
  blank, \<^verbatim>\<open>trim\<close> leaves it alone, and it is neither the header, nor a NOTE, nor a
  timing line, nor a cue number. \<open>doc_lines\<close> are the lines of the encoded cues.
\<close>

definition is_timestamp :: "string \<Rightarrow> bool" where
  "is_timestamp s =
     ((length s = 12 \<and> matches_at ts_long s) \<or> (length s = 9 \<and> matches_at ts_short s))"

definition plain_line :: "string \<Rightarrow> bool" where
  "plain_line l =
     (l \<noteq> [] \<and> trim l = l \<and> l \<noteq> ''WEBVTT'' \<and> \<not> startsWith l ''NOTE''
      \<and> timingMatch l = None \<and> \<not> all_digits l)"

definition plain_cue :: "cue \<Rightarrow> bool" where
  "plain_cue c =
     ((case start c of TimeStr s \<Rightarrow> is_timestamp s | TimeMs n \<Rightarrow> False)
      \<and> (case end c of TimeStr e \<Rightarrow> is_timestamp e | TimeMs n \<Rightarrow> False)
      \<and> list_all plain_line (split (text c) newline))"

fun doc_lines :: "nat \<Rightarrow> cue list \<Rightarrow> string list" where
  "doc_lines index [] = [[]]"
| "doc_lines index (c # cs) =
     [digits (index + 1), show_time (start c) @ '' --> '' @ show_time (end c)]
     @ split (text c) newline @ [[]] @ doc_lines (Suc index) cs"

section \<open>Trimming\<close>

lemma trim_ends:
  assumes "trim s \<noteq> []"
  shows "\<not> is_space (hd (trim s)) \<and> \<not> is_space (last (trim s))"
proof -
  let ?a = "dropWhile is_space s"
  let ?b = "dropWhile is_space (rev ?a)"
  have b: "?b \<noteq> []" using assms by (simp add: trim_def)
  have a: "?a \<noteq> []"
  proof
    assume "?a = []"
    with b show False by simp
  qed
  have "\<not> is_space (hd ?b)" using b by (rule hd_dropWhile)
  then have l: "\<not> is_space (last (trim s))"
    using b by (simp add: trim_def last_rev)
  have "rev ?a = takeWhile is_space (rev ?a) @ ?b" by simp
  then have "last (rev ?a) = last ?b" using b by (metis last_appendR)
  then have "last ?b = hd ?a" using a by (simp add: last_rev)
  moreover have "\<not> is_space (hd ?a)" using a by (rule hd_dropWhile)
  ultimately have "\<not> is_space (hd (trim s))"
    using b by (simp add: trim_def hd_rev)
  with l show ?thesis by simp
qed

lemma trim_id:
  assumes "s \<noteq> []" and "\<not> is_space (hd s)" and "\<not> is_space (last s)"
  shows "trim s = s"
proof -
  have "dropWhile is_space s = s" using assms(1,2) by (cases s) simp_all
  moreover have "dropWhile is_space (rev s) = rev s"
    using assms(1,3) by (cases "rev s") (auto simp: hd_rev [symmetric])
  ultimately show ?thesis by (simp add: trim_def)
qed

lemma trim_Nil [simp]: "trim [] = []"
  by (simp add: trim_def)

lemma trim_trim: "trim (trim s) = trim s"
proof (cases "trim s = []")
  case True
  then show ?thesis by simp
next
  case False
  then show ?thesis using trim_ends [OF False] by (simp add: trim_id)
qed

lemma trim_join:
  assumes "trim a = a" and "trim b = b" and "b \<noteq> []"
  shows "trim (a @ (if a \<noteq> [] then newline else []) @ b) = a @ (if a \<noteq> [] then newline else []) @ b"
proof (cases "a = []")
  case True
  then show ?thesis using assms by simp
next
  case False
  have a: "\<not> is_space (hd a)" using trim_ends [of a] assms(1) False by simp
  have b: "\<not> is_space (last b)" using trim_ends [of b] assms(2,3) by simp
  show ?thesis
    using False assms(3) a b by (intro trim_id) simp_all
qed

lemma trim_keeps_prefix:
  assumes "p \<noteq> []" and "\<not> is_space (hd p)" and "\<not> is_space (last p)"
  shows "\<exists>r'. trim (p @ r) = p @ r'"
proof -
  have front: "dropWhile is_space (p @ r) = p @ r"
    using assms(1,2) by (cases p) simp_all
  have rear: "\<exists>q. dropWhile is_space (rev r @ rev p) = q @ rev p"
  proof (cases "\<forall>x\<in>set (rev r). is_space x")
    case True
    have "dropWhile is_space (rev p) = rev p"
      using assms(1,3) by (cases "rev p") (auto simp: last_rev [symmetric] hd_rev)
    with True show ?thesis by (simp add: dropWhile_append)
  next
    case False
    then show ?thesis by (auto simp: dropWhile_append)
  qed
  then obtain q where "dropWhile is_space (rev r @ rev p) = q @ rev p" by blast
  then show ?thesis by (simp add: trim_def front)
qed

lemma trim_WEBVTT: "trim ''WEBVTT'' = ''WEBVTT''"
  by (rule trim_id) (simp_all add: is_space_def)

section \<open>Splitting at newlines and joining\<close>

lemma split_Nil: "split [] sep = [[]]"
  by (simp add: split.simps)

lemma split_newline_Cons:
  "split (c # s) newline =
     (if c = CHR 0x0A then [] # split s newline
      else (case split s newline of [] \<Rightarrow> [[c]] | x # xs \<Rightarrow> (c # x) # xs))"
  by (subst split.simps) (simp add: newline_def startsWith_def split: list.splits)

lemma split_not_Nil: "split s sep \<noteq> []"
  by (subst split.simps) (simp split: list.splits)

lemma split_append_newline:
  "split (a @ newline @ b) newline = split a newline @ split b newline"
proof (induction a)
  case Nil
  have "split (CHR 0x0A # b) newline = [] # split b newline"
    by (simp add: split_newline_Cons)
  then show ?case by (simp add: split_Nil newline_def)
next
  case (Cons c a)
  obtain x xs where x: "split a newline = x # xs"
    using split_not_Nil [of a newline] by (cases "split a newline") auto
  show ?case
    using Cons x by (simp add: split_newline_Cons)
qed

lemma split_no_newline: "CHR 0x0A \<notin> set a \<Longrightarrow> split a newline = [a]"
  by (induction a) (auto simp: split_Nil split_newline_Cons)

lemma join_split_newline: "join (split s newline) newline = s"
proof (induction s)
  case Nil
  show ?case by (simp add: split_Nil)
next
  case (Cons c s)
  obtain x xs where x: "split s newline = x # xs"
    using split_not_Nil [of s newline] by (cases "split s newline") auto
  show ?case
  proof (cases "c = CHR 0x0A")
    case True
    have "join ([] # x # xs) newline = newline @ join (x # xs) newline" by simp
    then show ?thesis using True Cons x by (simp add: split_newline_Cons) (simp add: newline_def)
  next
    case False
    then show ?thesis using Cons x by (cases xs) (simp_all add: split_newline_Cons)
  qed
qed

section \<open>Cue numbers and timing lines\<close>

lemma digit_char_is_digit: "d < 10 \<Longrightarrow> is_digit (digit_char d)"
proof -
  assume "d < 10"
  then have "d \<in> {0, 1, 2, 3, 4, 5, 6, 7, 8, 9}" by auto
  then show ?thesis
    by (elim insertE) (simp_all add: digit_char_def is_digit_def)
qed

lemma digits_are_digits: "digits n \<noteq> [] \<and> (\<forall>c\<in>set (digits n). is_digit c)"
proof (induction n rule: digits.induct)
  case (1 n)
  show ?case
  proof (cases "n < 10")
    case True
    then show ?thesis by (simp add: digits.simps [of n] digit_char_is_digit)
  next
    case False
    then show ?thesis using 1 by (simp add: digits.simps [of n] digit_char_is_digit)
  qed
qed

lemma digit_not_space: "is_digit c \<Longrightarrow> \<not> is_space c"
  by (auto simp: is_digit_def is_space_def)

lemma matches_at_third:
  "matches_at (t1 # t2 # Lit x # p) s \<Longrightarrow> x \<in> set s"
proof (cases s)
  case Nil
  assume "matches_at (t1 # t2 # Lit x # p) s"
  with Nil show ?thesis by simp
next
  case (Cons a s1)
  assume m: "matches_at (t1 # t2 # Lit x # p) s"
  show ?thesis
  proof (cases s1)
    case Nil
    with m Cons show ?thesis by simp
  next
    case (Cons b s2)
    with m \<open>s = a # s1\<close> show ?thesis by (cases s2) simp_all
  qed
qed

lemma timing_at_colon: "timing_at s = Some m \<Longrightarrow> CHR '':'' \<in> set s"
  by (auto simp: timing_at_def timing_alternatives_def ts_long_def ts_short_def
        split: if_splits dest: matches_at_third)

lemma timingMatch_colon: "timingMatch s = Some m \<Longrightarrow> CHR '':'' \<in> set s"
proof (induction s)
  case Nil
  then show ?case using timing_at_colon [of "[]" m] by simp
next
  case (Cons c s)
  then show ?case
    using timing_at_colon [of "c # s"] by (auto split: option.splits)
qed

lemma digit_line:
  assumes "d \<noteq> []" and "\<forall>c\<in>set d. is_digit c"
  shows "trim d = d" and "d \<noteq> ''WEBVTT''" and "\<not> startsWith d ''NOTE''"
    and "timingMatch d = None" and "all_digits d"
proof -
  have "hd d \<in> set d" and "last d \<in> set d" using assms(1) by simp_all
  then show "trim d = d"
    using assms by (intro trim_id) (auto dest: digit_not_space)
  show "d \<noteq> ''WEBVTT''"
  proof
    assume "d = ''WEBVTT''"
    with assms(2) have "is_digit CHR ''W''" by simp
    then show False by (simp add: is_digit_def)
  qed
  show "\<not> startsWith d ''NOTE''"
  proof
    assume "startsWith d ''NOTE''"
    then have "take (length ''NOTE'') d = ''NOTE''" by (simp only: startsWith_def)
    then have "CHR ''N'' \<in> set (take (length ''NOTE'') d)" by simp
    then have "CHR ''N'' \<in> set d" by (rule in_set_takeD)
    with assms(2) have "is_digit CHR ''N''" by simp
    then show False by (simp add: is_digit_def)
  qed
  show "timingMatch d = None"
  proof (cases "timingMatch d")
    case (Some m)
    then have "CHR '':'' \<in> set d" by (rule timingMatch_colon)
    with assms(2) have "is_digit CHR '':''" by simp
    then show ?thesis by (simp add: is_digit_def)
  qed simp
  show "all_digits d" using assms by (simp add: all_digits_def)
qed

lemma matches_at_append:
  "length s = length p \<Longrightarrow> matches_at (p @ q) (s @ r) = (matches_at p s \<and> matches_at q r)"
  by (induction p s rule: list_induct2') auto

lemma matches_at_prefix: "matches_at (p @ q) x \<Longrightarrow> matches_at p x"
  by (induction p x rule: matches_at.induct) auto

lemma matches_at_exact: "matches_at p [] = (p = [])"
  by (cases p) simp_all

lemma list9:
  "length s = 9 \<Longrightarrow> \<exists>a b c d e f g h i. s = [a, b, c, d, e, f, g, h, i]"
  by (auto simp: length_Suc_conv eval_nat_numeral)

lemma list12:
  "length s = 12 \<Longrightarrow> \<exists>a b c d e f g h i j k l. s = [a, b, c, d, e, f, g, h, i, j, k, l]"
  by (auto simp: length_Suc_conv eval_nat_numeral)

lemma short_not_long:
  assumes "length s = 9" and "matches_at ts_short s"
  shows "\<not> matches_at ts_long (s @ r)"
proof -
  obtain a b c d e f g h i where "s = [a, b, c, d, e, f, g, h, i]"
    using list9 [OF assms(1)] by blast
  with assms(2) show ?thesis by (auto simp: ts_short_def ts_long_def)
qed

lemma timestamp_ends:
  assumes "is_timestamp s"
  shows "s \<noteq> []" and "is_digit (hd s)" and "is_digit (last s)" and "CHR 0x0A \<notin> set s"
proof -
  consider (long) "length s = 12" "matches_at ts_long s" | (short) "length s = 9" "matches_at ts_short s"
    using assms by (auto simp: is_timestamp_def)
  then have "s \<noteq> [] \<and> is_digit (hd s) \<and> is_digit (last s) \<and> CHR 0x0A \<notin> set s"
  proof cases
    case long
    obtain a b c d e f g h i j k l where "s = [a, b, c, d, e, f, g, h, i, j, k, l]"
      using list12 [OF long(1)] by blast
    with long(2) show ?thesis by (auto simp: ts_long_def is_digit_def)
  next
    case short
    obtain a b c d e f g h i where "s = [a, b, c, d, e, f, g, h, i]"
      using list9 [OF short(1)] by blast
    with short(2) show ?thesis by (auto simp: ts_short_def is_digit_def)
  qed
  then show "s \<noteq> []" and "is_digit (hd s)" and "is_digit (last s)" and "CHR 0x0A \<notin> set s"
    by simp_all
qed

lemma matches_arrow: "matches_at arrow '' --> ''"
  by (simp add: arrow_def)

lemma first_alternative_hit:
  "matches_at (p1 @ arrow @ p2) x \<Longrightarrow>
   first_alternative ((p1, p2) # alts) x =
     Some (take (length p1) x, take (length p2) (drop (length p1 + length arrow) x))"
  by simp

lemma first_alternative_miss:
  "\<not> matches_at (p1 @ arrow @ p2) x \<Longrightarrow>
   first_alternative ((p1, p2) # alts) x = first_alternative alts x"
  by simp

lemma alternative_fits:
  assumes "length s = length p1" and "length e = length p2"
      and "matches_at p1 s" and "matches_at p2 e"
  shows "first_alternative ((p1, p2) # alts) (s @ '' --> '' @ e) = Some (s, e)"
proof -
  let ?line = "s @ '' --> '' @ e"
  have la: "length arrow = 5" by (simp add: arrow_def)
  have "matches_at (arrow @ p2) ('' --> '' @ e)"
    using matches_at_append [of "'' --> ''" arrow p2 e] matches_arrow assms(4) la by simp
  then have m: "matches_at (p1 @ arrow @ p2) ?line"
    using matches_at_append [of s p1 "arrow @ p2" "'' --> '' @ e"] assms(1,3) by simp
  have "take (length p1) ?line = s"
    using assms(1) by simp
  moreover have "take (length p2) (drop (length p1 + length arrow) ?line) = e"
    using assms(1,2) la by simp
  ultimately show ?thesis
    by (simp only: first_alternative_hit [OF m])
qed

lemma alternative_wrong_end:
  assumes "length s = length p1" and "\<not> matches_at p2 e"
  shows "\<not> matches_at (p1 @ arrow @ p2) (s @ '' --> '' @ e)"
proof -
  have la: "length arrow = 5" by (simp add: arrow_def)
  have "\<not> matches_at (arrow @ p2) ('' --> '' @ e)"
    using matches_at_append [of "'' --> ''" arrow p2 e] assms(2) la by simp
  then show ?thesis
    using matches_at_append [of s p1 "arrow @ p2" "'' --> '' @ e"] assms(1) by simp
qed

lemma timing_at_line:
  assumes "is_timestamp s" and "is_timestamp e"
  shows "timing_at (s @ '' --> '' @ e) = Some (s, e)"
proof -
  let ?line = "s @ '' --> '' @ e"
  have len_long: "length ts_long = 12" and len_short: "length ts_short = 9"
    by (simp_all add: ts_long_def ts_short_def)
  have s_short: "\<not> matches_at (ts_long @ arrow @ q) ?line"
    if "length s = 9" "matches_at ts_short s" for q
    using short_not_long [OF that, of "'' --> '' @ e"]
      matches_at_prefix [of ts_long "arrow @ q" ?line]
    by blast
  have e_short: "\<not> matches_at ts_long e" if "length e = 9" "matches_at ts_short e"
    using short_not_long [OF that, of "[]"] by simp
  consider (long_long) "length s = 12" "matches_at ts_long s" "length e = 12" "matches_at ts_long e"
    | (long_short) "length s = 12" "matches_at ts_long s" "length e = 9" "matches_at ts_short e"
    | (short_long) "length s = 9" "matches_at ts_short s" "length e = 12" "matches_at ts_long e"
    | (short_short) "length s = 9" "matches_at ts_short s" "length e = 9" "matches_at ts_short e"
    using assms by (auto simp: is_timestamp_def)
  then show ?thesis
  proof cases
    case long_long
    then show ?thesis
      unfolding timing_at_def timing_alternatives_def
      by (intro alternative_fits) (simp_all add: len_long)
  next
    case long_short
    have 1: "\<not> matches_at (ts_long @ arrow @ ts_long) ?line"
      using long_short e_short by (intro alternative_wrong_end) (simp_all add: len_long)
    show ?thesis
      unfolding timing_at_def timing_alternatives_def first_alternative_miss [OF 1]
      using long_short by (intro alternative_fits) (simp_all add: len_long len_short)
  next
    case short_long
    have 1: "\<not> matches_at (ts_long @ arrow @ ts_long) ?line"
      and 2: "\<not> matches_at (ts_long @ arrow @ ts_short) ?line"
      using short_long s_short by simp_all
    show ?thesis
      unfolding timing_at_def timing_alternatives_def first_alternative_miss [OF 1]
        first_alternative_miss [OF 2]
      using short_long by (intro alternative_fits) (simp_all add: len_long len_short)
  next
    case short_short
    have 1: "\<not> matches_at (ts_long @ arrow @ ts_long) ?line"
      and 2: "\<not> matches_at (ts_long @ arrow @ ts_short) ?line"
      using short_short s_short by simp_all
    have 3: "\<not> matches_at (ts_short @ arrow @ ts_long) ?line"
      using short_short e_short by (intro alternative_wrong_end) (simp_all add: len_short)
    show ?thesis
      unfolding timing_at_def timing_alternatives_def first_alternative_miss [OF 1]
        first_alternative_miss [OF 2] first_alternative_miss [OF 3]
      using short_short by (intro alternative_fits) (simp_all add: len_short)
  qed
qed

lemma timing_line:
  assumes "is_timestamp s" and "is_timestamp e"
  shows "trim (s @ '' --> '' @ e) = s @ '' --> '' @ e"
    and "s @ '' --> '' @ e \<noteq> ''WEBVTT''"
    and "\<not> startsWith (s @ '' --> '' @ e) ''NOTE''"
    and "timingMatch (s @ '' --> '' @ e) = Some (s, e)"
    and "CHR 0x0A \<notin> set (s @ '' --> '' @ e)"
proof -
  let ?line = "s @ '' --> '' @ e"
  note s = timestamp_ends [OF assms(1)] and e = timestamp_ends [OF assms(2)]
  have first: "hd ?line = hd s" using s(1) by simp
  have final: "last ?line = last e" using e(1) by simp
  show "trim ?line = ?line"
    using s(1,2) e(3) first final by (intro trim_id) (auto dest: digit_not_space)
  show "?line \<noteq> ''WEBVTT''"
  proof
    assume "?line = ''WEBVTT''"
    then have "hd ?line = CHR ''W''" by simp
    with first s(2) show False by (simp add: is_digit_def)
  qed
  show "\<not> startsWith ?line ''NOTE''"
  proof
    assume "startsWith ?line ''NOTE''"
    then have "take (length ''NOTE'') ?line = ''NOTE''" by (simp only: startsWith_def)
    then have "hd ?line = CHR ''N''" using s(1) by (cases s) simp_all
    with first s(2) show False by (simp add: is_digit_def)
  qed
  show "timingMatch ?line = Some (s, e)"
  proof (cases ?line)
    case Nil
    then show ?thesis using s(1) by simp
  next
    case (Cons c rest)
    have "timingMatch (c # rest) = Some (s, e)"
      using timing_at_line [OF assms] Cons by simp
    then show ?thesis using Cons by simp
  qed
  show "CHR 0x0A \<notin> set ?line" using s(4) e(4) by simp
qed

section \<open>The steps of the decoder\<close>

lemma vtt_loop_skip:
  "trim raw = [] \<or> trim raw = ''WEBVTT'' \<Longrightarrow> vtt_loop (raw # rest) cur cues = vtt_loop rest cur cues"
  by (simp add: vtt_loop.simps Let_def)

lemma vtt_loop_note:
  "trim raw \<noteq> [] \<Longrightarrow> trim raw \<noteq> ''WEBVTT'' \<Longrightarrow> startsWith (trim raw) ''NOTE'' \<Longrightarrow>
   vtt_loop (raw # rest) cur cues =
     vtt_loop (drop 1 (dropWhile (\<lambda>l. trim l \<noteq> []) (raw # rest))) cur cues"
  by (simp add: vtt_loop.simps Let_def)

lemma vtt_loop_timing:
  "trim raw \<noteq> [] \<Longrightarrow> trim raw \<noteq> ''WEBVTT'' \<Longrightarrow> \<not> startsWith (trim raw) ''NOTE'' \<Longrightarrow>
   timingMatch (trim raw) = Some (s, e) \<Longrightarrow>
   vtt_loop (raw # rest) cur cues =
     vtt_loop rest (Some \<lparr>start = TimeStr s, end = TimeStr e, text = []\<rparr>) (push_cue cur cues)"
  by (simp add: vtt_loop.simps Let_def)

lemma vtt_loop_text:
  "trim raw \<noteq> [] \<Longrightarrow> trim raw \<noteq> ''WEBVTT'' \<Longrightarrow> \<not> startsWith (trim raw) ''NOTE'' \<Longrightarrow>
   timingMatch (trim raw) = None \<Longrightarrow> \<not> all_digits (trim raw) \<Longrightarrow>
   vtt_loop (raw # rest) (Some c) cues = vtt_loop rest (Some (add_line (trim raw) c)) cues"
  by (simp add: vtt_loop.simps Let_def)

lemma vtt_loop_ignored:
  "trim raw \<noteq> [] \<Longrightarrow> trim raw \<noteq> ''WEBVTT'' \<Longrightarrow> \<not> startsWith (trim raw) ''NOTE'' \<Longrightarrow>
   timingMatch (trim raw) = None \<Longrightarrow> cur = None \<or> all_digits (trim raw) \<Longrightarrow>
   vtt_loop (raw # rest) cur cues = vtt_loop rest cur cues"
  by (cases cur) (auto simp: vtt_loop.simps Let_def)

lemma vtt_loop_cases:
  obtains (skip) "trim raw = [] \<or> trim raw = ''WEBVTT''"
  | (comment) "trim raw \<noteq> []" "trim raw \<noteq> ''WEBVTT''" "startsWith (trim raw) ''NOTE''"
  | (timing) s e where "trim raw \<noteq> []" "trim raw \<noteq> ''WEBVTT''" "\<not> startsWith (trim raw) ''NOTE''"
      "timingMatch (trim raw) = Some (s, e)"
  | (append) c where "trim raw \<noteq> []" "trim raw \<noteq> ''WEBVTT''" "\<not> startsWith (trim raw) ''NOTE''"
      "timingMatch (trim raw) = None" "\<not> all_digits (trim raw)" "(cur :: cue option) = Some c"
  | (ignored) "trim raw \<noteq> []" "trim raw \<noteq> ''WEBVTT''" "\<not> startsWith (trim raw) ''NOTE''"
      "timingMatch (trim raw) = None" "cur = None \<or> all_digits (trim raw)"
proof (cases "timingMatch (trim raw)")
  case None
  then show ?thesis using skip comment append ignored by (cases cur) blast+
next
  case (Some m)
  then show ?thesis using skip comment timing by (cases m) blast
qed

lemma vtt_loop_trimmed:
  assumes "\<forall>c\<in>set cues. trim (text c) = text c"
      and "\<forall>c. cur = Some c \<longrightarrow> trim (text c) = text c"
  shows "\<forall>c\<in>set (vtt_loop ls cur cues). trim (text c) = text c"
  using assms
proof (induction "length ls" arbitrary: ls cur cues rule: less_induct)
  case less
  have pushed: "\<forall>c\<in>set (push_cue cur cues). trim (text c) = text c"
    using less.prems by (cases cur) (simp_all add: push_cue_def)
  show ?case
  proof (cases ls)
    case Nil
    then show ?thesis using pushed by (simp add: vtt_loop.simps)
  next
    case (Cons raw rest)
    have shorter: "length rest < length ls" using Cons by simp
    show ?thesis
    proof (cases rule: vtt_loop_cases [where raw = raw and cur = cur])
      case skip
      then show ?thesis
        using less.hyps [OF shorter less.prems] by (simp add: Cons vtt_loop_skip)
    next
      case comment
      let ?ls' = "drop 1 (dropWhile (\<lambda>l. trim l \<noteq> []) (raw # rest))"
      have "length (dropWhile (\<lambda>l. trim l \<noteq> []) (raw # rest)) \<le> Suc (length rest)"
        using length_dropWhile_le [of "\<lambda>l. trim l \<noteq> []" "raw # rest"] by simp
      then have "length ?ls' < length ls" using Cons by simp
      from less.hyps [OF this less.prems] show ?thesis
        using comment by (simp add: Cons vtt_loop_note)
    next
      case (timing s e)
      have "\<forall>c. Some \<lparr>start = TimeStr s, end = TimeStr e, text = []\<rparr> = Some c
              \<longrightarrow> trim (text c) = text c"
        by auto
      from less.hyps [OF shorter pushed this] show ?thesis
        using timing by (simp add: Cons vtt_loop_timing)
    next
      case (append c)
      have "trim (text c) = text c" using less.prems(2) append(6) by simp
      then have "trim (text (add_line (trim raw) c)) = text (add_line (trim raw) c)"
        using trim_join [of "text c" "trim raw"] append(1) by (simp add: add_line_def trim_trim)
      then have "\<forall>c'. Some (add_line (trim raw) c) = Some c' \<longrightarrow> trim (text c') = text c'"
        by auto
      from less.hyps [OF shorter less.prems(1) this] show ?thesis
        using append by (simp add: Cons vtt_loop_text)
    next
      case ignored
      then show ?thesis
        using less.hyps [OF shorter less.prems] by (simp add: Cons vtt_loop_ignored)
    qed
  qed
qed

lemma parse_vtt_trimmed:
  "\<forall>c\<in>set (parseSubtitleContent parseSRT content Vtt). trim (text c) = text c"
  using vtt_loop_trimmed [of "[]" None] by (simp add: parseSubtitleContent_def)

lemma vtt_loop_plain_lines:
  assumes "list_all plain_line ls"
  shows "vtt_loop (ls @ rest) (Some c) cues = vtt_loop rest (Some (fold add_line ls c)) cues"
  using assms
proof (induction ls arbitrary: c)
  case Nil
  show ?case by simp
next
  case (Cons l ls)
  then have l: "plain_line l" and ls: "list_all plain_line ls" by simp_all
  have "vtt_loop (l # ls @ rest) (Some c) cues = vtt_loop (ls @ rest) (Some (add_line l c)) cues"
    using l vtt_loop_text [where raw = l and c = c and rest = "ls @ rest" and cues = cues]
    by (simp add: plain_line_def)
  then show ?case using Cons.IH [OF ls] by simp
qed

lemma fold_add_line:
  assumes "\<forall>l\<in>set ls. l \<noteq> []"
  shows "fold add_line ls c =
           c\<lparr>text := text c @ (if text c \<noteq> [] \<and> ls \<noteq> [] then newline else []) @ join ls newline\<rparr>"
  using assms
proof (induction ls arbitrary: c)
  case Nil
  show ?case by simp
next
  case (Cons l ls)
  then have l: "l \<noteq> []" and ls: "\<forall>l\<in>set ls. l \<noteq> []" by simp_all
  have t: "text (add_line l c) \<noteq> []" using l by (simp add: add_line_def)
  show ?case
    using Cons.IH [OF ls, of "add_line l c"] t
    by (cases ls) (simp_all add: add_line_def)
qed

lemma plain_cue_parts:
  assumes "plain_cue c"
  obtains s e where "start c = TimeStr s" and "end c = TimeStr e"
    and "is_timestamp s" and "is_timestamp e"
    and "list_all plain_line (split (text c) newline)"
  using assms by (auto simp: plain_cue_def split: timeval.splits)

lemma split_cue_blocks:
  assumes "list_all plain_cue cs"
  shows "split (cue_blocks index cs) newline = doc_lines index cs"
  using assms
proof (induction cs arbitrary: index)
  case Nil
  show ?case by (simp add: split_Nil)
next
  case (Cons c cs)
  then have c: "plain_cue c" and cs: "list_all plain_cue cs" by simp_all
  obtain s e where se: "start c = TimeStr s" "end c = TimeStr e"
    and ts: "is_timestamp s" "is_timestamp e"
    using c by (rule plain_cue_parts)
  let ?d = "digits (index + 1)" and ?t = "s @ '' --> '' @ e"
  let ?rest = "cue_blocks (Suc index) cs"
  have d: "split ?d newline = [?d]"
  proof (rule split_no_newline)
    show "CHR 0x0A \<notin> set ?d"
    proof
      assume "CHR 0x0A \<in> set ?d"
      then have "is_digit CHR 0x0A" using digits_are_digits [of "index + 1"] by blast
      then show False by (simp add: is_digit_def)
    qed
  qed
  have t: "split ?t newline = [?t]"
    using timing_line(5) [OF ts] by (rule split_no_newline)
  have "cue_blocks index (c # cs) =
          ?d @ newline @ (?t @ newline @ (text c @ newline @ ([] @ newline @ ?rest)))"
    by (simp add: cue_block_def se)
  then have "split (cue_blocks index (c # cs)) newline =
          split ?d newline @ split ?t newline @ split (text c) newline
          @ split [] newline @ split ?rest newline"
    by (simp only: split_append_newline)
  then show ?case
    using Cons.IH [OF cs] d [simplified] t [simplified] by (simp add: split_Nil se)
qed

lemma vtt_loop_doc_lines:
  assumes "list_all plain_cue cs"
  shows "vtt_loop (doc_lines index cs) cur cues = push_cue cur cues @ cs"
  using assms
proof (induction cs arbitrary: index cur cues)
  case Nil
  have "vtt_loop [[]] cur cues = vtt_loop [] cur cues"
    by (rule vtt_loop_skip) simp
  then show ?case by (simp add: vtt_loop.simps)
next
  case (Cons c cs)
  then have c: "plain_cue c" and cs: "list_all plain_cue cs" by simp_all
  obtain s e where se: "start c = TimeStr s" "end c = TimeStr e"
    and ts: "is_timestamp s" "is_timestamp e"
    and lines: "list_all plain_line (split (text c) newline)"
    using c by (rule plain_cue_parts)
  let ?d = "digits (index + 1)" and ?t = "s @ '' --> '' @ e"
  let ?lines = "split (text c) newline"
  let ?after = "[] # doc_lines (Suc index) cs"
  let ?new = "\<lparr>start = TimeStr s, end = TimeStr e, text = []\<rparr>"
  note d = digit_line [OF digits_are_digits [of "index + 1", THEN conjunct1]
                          digits_are_digits [of "index + 1", THEN conjunct2]]
  note t = timing_line [OF ts]
  have nonempty: "\<forall>l\<in>set ?lines. l \<noteq> []"
    using lines by (auto simp: list_all_iff plain_line_def)
  have filled: "fold add_line ?lines ?new = c"
    using se by (simp add: fold_add_line [OF nonempty] join_split_newline)
  have "vtt_loop (doc_lines index (c # cs)) cur cues
          = vtt_loop (?d # ?t # ?lines @ ?after) cur cues"
    by (simp add: se)
  also have "\<dots> = vtt_loop (?t # ?lines @ ?after) cur cues"
    using d digits_are_digits [of "index + 1"] by (intro vtt_loop_ignored) simp_all
  also have "\<dots> = vtt_loop (?lines @ ?after) (Some ?new) (push_cue cur cues)"
    using t timestamp_ends(1) [OF ts(1)] by (intro vtt_loop_timing) simp_all
  also have "\<dots> = vtt_loop ?after (Some c) (push_cue cur cues)"
    by (simp add: vtt_loop_plain_lines [OF lines] filled)
  also have "\<dots> = vtt_loop (doc_lines (Suc index) cs) (Some c) (push_cue cur cues)"
    by (rule vtt_loop_skip) simp
  also have "\<dots> = push_cue (Some c) (push_cue cur cues) @ cs"
    by (rule Cons.IH [OF cs])
  finally show ?case by (simp add: push_cue_def)
qed

lemma convertCuesToVTT_nonempty: "convertCuesToVTT cues \<noteq> []"
  by (simp add: convertCuesToVTT_def)

lemma detect_format_convertCuesToVTT: "detect_format (convertCuesToVTT cues) = Vtt"
proof -
  obtain r' where "trim (''WEBVTT'' @ newline @ newline @ cue_blocks 0 cues) = ''WEBVTT'' @ r'"
    using trim_keeps_prefix [of "''WEBVTT''"] by (auto simp: is_space_def)
  then show ?thesis
    by (simp add: detect_format_def convertCuesToVTT_def startsWith_def)
qed


section \<open>Batches, reassembly and the results of the callbacks\<close>

lemma length_reconcile: "length (reconcile texts t) = length texts"
  by (simp add: reconcile_def Let_def)

lemma translateBatch_length:
  "translateBatch post s t i batch = Inr r \<Longrightarrow> length r = length batch"
  by (auto simp: translateBatch_def Let_def length_reconcile split: response.splits)

lemma concat_slices: "concat (slices i cues) = drop i cues"
proof (induction i cues rule: slices.induct)
  case (1 i cues)
  show ?case
  proof (cases "i < length cues")
    case True
    then have "concat (slices i cues) = take batchSize (drop i cues) @ drop (i + batchSize) cues"
      using 1 by (simp add: slices.simps [of i cues])
    also have "\<dots> = drop i cues"
      by (metis add.commute append_take_drop_id drop_drop)
    finally show ?thesis .
  next
    case False
    then show ?thesis by (simp add: slices.simps [of i cues])
  qed
qed

lemma slices_end: "length cues \<le> i \<Longrightarrow> slices i cues = []"
  by (simp add: slices.simps [of i cues])

lemma slices_step:
  "i < length cues \<Longrightarrow> slices i cues = take batchSize (drop i cues) # slices (i + batchSize) cues"
  by (simp add: slices.simps [of i cues])

lemma fold_apply_translation:
  "i + length ts \<le> length cues \<Longrightarrow>
   fold apply_translation ts (cues, i) =
     (take i cues @ map2 (\<lambda>c tr. c\<lparr>text := trim tr\<rparr>) (take (length ts) (drop i cues)) ts
        @ drop (i + length ts) cues, i + length ts)"
proof (induction ts arbitrary: cues i)
  case Nil
  then show ?case by simp
next
  case (Cons tr ts)
  let ?cues = "cues[i := (cues ! i)\<lparr>text := trim tr\<rparr>]"
  have i: "i < length cues" using Cons.prems by simp
  have step: "apply_translation tr (cues, i) = (?cues, Suc i)"
    using i by (simp add: apply_translation_def)
  have len: "Suc i + length ts \<le> length ?cues" using Cons.prems by simp
  have d: "drop i cues = cues ! i # drop (Suc i) cues"
    using i by (simp add: Cons_nth_drop_Suc)
  have t: "take (Suc i) ?cues = take i cues @ [(cues ! i)\<lparr>text := trim tr\<rparr>]"
    using i by (simp add: take_Suc_conv_app_nth)
  show ?case
    using Cons.IH [OF len] step d t by simp
qed

lemma apply_translations_concat:
  "apply_translations tbs cues = fst (fold apply_translation (concat tbs) (cues, 0))"
proof -
  have "fold (\<lambda>b st. fold apply_translation b st) tbs st = fold apply_translation (concat tbs) st"
    for st
    by (induction tbs arbitrary: st) simp_all
  then show ?thesis by (simp add: apply_translations_def)
qed

lemma apply_translations_exact:
  assumes "length (concat tbs) = length cues"
  shows "apply_translations tbs cues = map2 (\<lambda>c tr. c\<lparr>text := trim tr\<rparr>) cues (concat tbs)"
  using fold_apply_translation [of 0 "concat tbs" cues] assms
  by (simp add: apply_translations_concat)




lemma all_results_Inr:
  "all_results rs = Inr xs \<Longrightarrow> rs = map Inr xs"
  by (induction rs arbitrary: xs) (auto split: sum.splits)

lemma all_results_map_Inr: "all_results (map Inr xs) = Inr xs"
  by (induction xs) auto

lemma all_results_Inl:
  "all_results rs = Inl e \<Longrightarrow> \<exists>e'. Inl e' \<in> set rs"
  by (induction rs) (auto split: sum.splits)

lemma all_results_fails:
  "Inl e \<in> set rs \<Longrightarrow> \<exists>e'. all_results rs = Inl e'"
  by (induction rs) (auto split: sum.splits)

lemma translateBatch_Inl:
  "\<forall>tx. post i (prompt s t (map text batch)) \<noteq> Text tx \<Longrightarrow> \<exists>e. translateBatch post s t i batch = Inl e"
  by (cases "post i (prompt s t (map text batch))") (simp_all add: translateBatch_def)

lemma translateBatch_Inr:
  "translateBatch post s t i batch = Inr r \<Longrightarrow>
   \<exists>tx. post i (prompt s t (map text batch)) = Text tx \<and> r = reconcile (map text batch) tx"
  by (cases "post i (prompt s t (map text batch))") (simp_all add: translateBatch_def)

lemma translateBatch_fallback:
  assumes "post i (prompt s t (map text batch)) = Text tx"
      and "length (split tx separator) \<noteq> length batch"
      and "length (filter (\<lambda>line. trim line \<noteq> []) (split tx newline)) < length batch"
  shows "translateBatch post s t i batch = Inr (map text batch)"
  using assms by (simp add: translateBatch_def reconcile_def Let_def)

lemma translateCues_fails:
  assumes "i < length (slices 0 cues)"
      and "\<forall>tx. post i (prompt s t (map text (slices 0 cues ! i))) \<noteq> Text tx"
  shows "\<exists>e. translateCues post s t cues = Inl e"
proof -
  let ?rs = "map (\<lambda>(batchIndex, batch). translateBatch post s t batchIndex batch)
               (enumerate 0 (slices 0 cues))"
  obtain e where e: "translateBatch post s t i (slices 0 cues ! i) = Inl e"
    using translateBatch_Inl [of post i s t "slices 0 cues ! i"] assms(2) by blast
  have "?rs ! i = Inl e"
    using assms(1) e by (simp add: nth_enumerate_eq)
  moreover have "i < length ?rs" using assms(1) by simp
  ultimately have "Inl e \<in> set ?rs" by (metis nth_mem)
  then obtain e' where "all_results ?rs = Inl e'"
    using all_results_fails by blast
  then show ?thesis by (simp add: translateCues_def Let_def)
qed

lemma translateCues_Inr:
  assumes "translateCues post s t cues = Inr cs'"
  shows "\<exists>tbs. cs' = apply_translations tbs cues
           \<and> length tbs = length (slices 0 cues)
           \<and> (\<forall>i<length tbs. translateBatch post s t i (slices 0 cues ! i) = Inr (tbs ! i))"
proof -
  let ?rs = "map (\<lambda>(batchIndex, batch). translateBatch post s t batchIndex batch)
               (enumerate 0 (slices 0 cues))"
  obtain tbs where tbs: "all_results ?rs = Inr tbs" and cs': "cs' = apply_translations tbs cues"
    using assms by (auto simp: translateCues_def Let_def split: sum.splits)
  have rs: "?rs = map Inr tbs" using all_results_Inr [OF tbs] .
  then have len: "length tbs = length (slices 0 cues)"
    by (metis length_map length_enumerate)
  have "translateBatch post s t i (slices 0 cues ! i) = Inr (tbs ! i)" if "i < length tbs" for i
  proof -
    have "?rs ! i = translateBatch post s t i (slices 0 cues ! i)"
      using that len by (simp add: nth_enumerate_eq)
    moreover have "?rs ! i = Inr (tbs ! i)"
      using that by (simp add: rs)
    ultimately show ?thesis by simp
  qed
  with cs' len show ?thesis by blast
qed


lemma translateCues_all_fallback:
  assumes "\<forall>i<length (slices 0 cues).
             \<exists>tx. post i (prompt s t (map text (slices 0 cues ! i))) = Text tx
                \<and> length (split tx separator) \<noteq> length (slices 0 cues ! i)
                \<and> length (filter (\<lambda>line. trim line \<noteq> []) (split tx newline))
                    < length (slices 0 cues ! i)"
  shows "translateCues post s t cues = Inr (map (\<lambda>c. c\<lparr>text := trim (text c)\<rparr>) cues)"
proof -
  let ?batches = "slices 0 cues"
  let ?rs = "map (\<lambda>(batchIndex, batch). translateBatch post s t batchIndex batch)
               (enumerate 0 ?batches)"
  have "?rs = map Inr (map (map text) ?batches)"
  proof (rule nth_equalityI)
    show "length ?rs = length (map Inr (map (map text) ?batches))" by simp
  next
    fix i assume "i < length ?rs"
    then have i: "i < length ?batches" by simp
    then obtain tx where "post i (prompt s t (map text (?batches ! i))) = Text tx"
      and "length (split tx separator) \<noteq> length (?batches ! i)"
      and "length (filter (\<lambda>line. trim line \<noteq> []) (split tx newline)) < length (?batches ! i)"
      using assms by blast
    then have "translateBatch post s t i (?batches ! i) = Inr (map text (?batches ! i))"
      by (rule translateBatch_fallback)
    then show "?rs ! i = map Inr (map (map text) ?batches) ! i"
      using i by (simp add: nth_enumerate_eq)
  qed
  then have "all_results ?rs = Inr (map (map text) ?batches)"
    using all_results_map_Inr [of "map (map text) ?batches"] by (simp only:)
  moreover have "concat (map (map text) ?batches) = map text cues"
    using concat_slices [of 0 cues] by (simp add: map_concat [symmetric])
  then have "apply_translations (map (map text) ?batches) cues
               = map (\<lambda>c. c\<lparr>text := trim (text c)\<rparr>) cues"
    by (simp add: apply_translations_exact zip_map2 zip_same_conv_map)
  ultimately show ?thesis by (simp add: translateCues_def Let_def)
qed

lemma slices_nth:
  "j < length (slices i cues) \<Longrightarrow>
   slices i cues ! j = take batchSize (drop (i + j * batchSize) cues)
   \<and> i + j * batchSize < length cues"
proof (induction j arbitrary: i)
  case 0
  then have "i < length cues" using slices_end [of cues i] by (cases "i < length cues") auto
  then show ?case by (simp add: slices_step)
next
  case (Suc j)
  have i: "i < length cues"
    using Suc.prems slices_end [of cues i] by (cases "i < length cues") auto
  have step: "slices i cues = take batchSize (drop i cues) # slices (i + batchSize) cues"
    using i by (rule slices_step)
  have "j < length (slices (i + batchSize) cues)"
    using Suc.prems by (subst (asm) step) simp
  from Suc.IH [OF this]
  have ih: "slices (i + batchSize) cues ! j = take batchSize (drop (i + batchSize + j * batchSize) cues)"
    and bound: "i + batchSize + j * batchSize < length cues"
    by simp_all
  have "slices i cues ! Suc j = slices (i + batchSize) cues ! j"
    by (subst step) simp
  moreover have "i + Suc j * batchSize = i + batchSize + j * batchSize" by simp
  ultimately show ?case using ih bound by (simp add: add.assoc)
qed

lemma slices_full:
  assumes "j < i" and "i < length (slices 0 cues)"
  shows "length (slices 0 cues ! j) = batchSize"
proof -
  have "i * batchSize < length cues" using slices_nth [OF assms(2)] by simp
  moreover have "Suc j * batchSize \<le> i * batchSize"
    using assms(1) by (intro mult_le_mono1) simp
  ultimately have "j * batchSize + batchSize \<le> length cues" by simp
  moreover have "slices 0 cues ! j = take batchSize (drop (j * batchSize) cues)"
    using slices_nth [of j 0 cues] assms by simp
  ultimately show ?thesis by simp
qed

lemma slices_cue:
  assumes "i < length (slices 0 cues)" and "k < length (slices 0 cues ! i)"
  shows "slices 0 cues ! i ! k = cues ! (i * batchSize + k)"
    and "i * batchSize + k < length cues"
proof -
  have b: "slices 0 cues ! i = take batchSize (drop (i * batchSize) cues)"
    using slices_nth [OF assms(1)] by simp
  then have k: "k < batchSize" "k < length cues - i * batchSize" using assms(2) by simp_all
  then show "i * batchSize + k < length cues" by simp
  then show "slices 0 cues ! i ! k = cues ! (i * batchSize + k)"
    using k by (simp add: b)
qed

lemma concat_nth_blocks:
  assumes "\<forall>j<i. length (xss ! j) = n" and "i < length xss" and "k < length (xss ! i)"
  shows "concat xss ! (i * n + k) = xss ! i ! k"
  using assms
proof (induction xss arbitrary: i)
  case Nil
  then show ?case by simp
next
  case (Cons xs xss)
  show ?case
  proof (cases i)
    case 0
    then show ?thesis using Cons.prems by (simp add: nth_append)
  next
    case (Suc i')
    have n: "length xs = n" using Cons.prems(1) Suc by auto
    have "\<forall>j<i'. length (xss ! j) = n" using Cons.prems(1) Suc by auto
    moreover have "i' < length xss" "k < length (xss ! i')" using Cons.prems(2,3) Suc by simp_all
    ultimately have "concat xss ! (i' * n + k) = xss ! i' ! k" by (rule Cons.IH)
    then show ?thesis using Suc n by (simp add: nth_append)
  qed
qed

lemma translateCues_position:
  assumes "translateCues post s t cues = Inr translated"
      and "i < length (slices 0 cues)"
      and "k < length (slices 0 cues ! i)"
      and "translateBatch post s t i (slices 0 cues ! i) = Inr r"
  shows "translated ! (i * batchSize + k) = (cues ! (i * batchSize + k))\<lparr>text := trim (r ! k)\<rparr>"
proof -
  obtain tbs where tr: "translated = apply_translations tbs cues"
    and len: "length tbs = length (slices 0 cues)"
    and each: "\<forall>j<length tbs. translateBatch post s t j (slices 0 cues ! j) = Inr (tbs ! j)"
    using translateCues_Inr [OF assms(1)] by blast
  have lens: "length (tbs ! j) = length (slices 0 cues ! j)" if "j < length tbs" for j
    using each that translateBatch_length by blast
  have "map length tbs = map length (slices 0 cues)"
    using len lens by (intro nth_equalityI) simp_all
  then have "length (concat tbs) = length (concat (slices 0 cues))"
    by (simp add: length_concat)
  then have total: "length (concat tbs) = length cues" by (simp add: concat_slices)
  have r: "tbs ! i = r" using each assms(2,4) len by simp
  have full: "\<forall>j<i. length (tbs ! j) = batchSize"
    using lens len assms(2) slices_full [of _ i cues] by simp
  have k: "k < length (tbs ! i)" using lens [of i] len assms(2,3) by simp
  have "concat tbs ! (i * batchSize + k) = tbs ! i ! k"
    using full len assms(2) k by (intro concat_nth_blocks) simp_all
  moreover have "i * batchSize + k < length cues" using slices_cue(2) [OF assms(2,3)] .
  ultimately show ?thesis
    using total by (simp add: tr apply_translations_exact r)
qed

lemma translateBatch_mismatch:
  assumes "post batchIndex (prompt sourceLang targetLang (map text batch)) = Text translatedText"
      and "length (split translatedText separator) \<noteq> length batch"
  shows "translateBatch post sourceLang targetLang batchIndex batch =
           Inr (let simpleSplit = filter (\<lambda>line. trim line \<noteq> []) (split translatedText newline)
                in if length batch \<le> length simpleSplit
                   then take (length batch) simpleSplit
                   else map text batch)"
  using assms by (simp add: translateBatch_def reconcile_def Let_def)

lemma try_block_translated:
  assumes "parseSubtitleContent parseSRT content (detect_format content) = cues"
      and "cues \<noteq> []"
  shows "try_block parseSRT post t_set c key content s t =
           (requests s t cues,
            case translateCues post s t cues of
              Inl e \<Rightarrow> Inl e
            | Inr cs' \<Rightarrow> Inr (convertCuesToVTT cs', cache_set t_set c key (convertCuesToVTT cs')))"
  using assms by (simp add: try_block_def Let_def split: sum.splits)

section \<open>The lookup and the write\<close>

lemma translateSubtitle_miss:
  assumes "\<not> truthy (fst (cache_get t_get c (cacheKey digest content sourceLang targetLang)))"
  shows "translateSubtitle digest parseSRT post t_get t_set c content sourceLang targetLang =
           (let key = cacheKey digest content sourceLang targetLang;
                c1 = snd (cache_get t_get c key) in
            case try_block parseSRT post t_set c1 key content sourceLang targetLang of
              (reqs, Inr (result, c2)) \<Rightarrow> \<lparr>returned = result, cache_after = c2, sent = reqs\<rparr>
            | (reqs, Inl e) \<Rightarrow> \<lparr>returned = content, cache_after = c1, sent = reqs\<rparr>)"
proof (cases "cache_get t_get c (cacheKey digest content sourceLang targetLang)")
  case (Pair v c1)
  with assms show ?thesis by (simp add: translateSubtitle_def Let_def)
qed

lemma translateSubtitle_hit:
  assumes "truthy (fst (cache_get t_get c (cacheKey digest content sourceLang targetLang)))"
  shows "translateSubtitle digest parseSRT post t_get t_set c content sourceLang targetLang =
           (let key = cacheKey digest content sourceLang targetLang in
            \<lparr>returned = the (fst (cache_get t_get c key)),
             cache_after = snd (cache_get t_get c key), sent = []\<rparr>)"
proof (cases "cache_get t_get c (cacheKey digest content sourceLang targetLang)")
  case (Pair v c1)
  with assms show ?thesis by (simp add: translateSubtitle_def Let_def)
qed

lemma cache_get_no_new_entry: "snd (cache_get now c key) \<subseteq>\<^sub>m c"
  by (auto simp: cache_get_def map_le_def split: option.splits if_splits)

lemma cache_get_after_set:
  assumes "t \<le> t_set + stdTTL * 1000" and "v \<noteq> []"
  shows "cache_get t (cache_set t_set c key v) key = (Some v, cache_set t_set c key v)"
  using assms by (simp add: cache_get_def cache_set_def)

lemma cache_get_expired:
  assumes "t_set + stdTTL * 1000 < t"
  shows "fst (cache_get t (cache_set t_set c key v) key) = None"
  using assms by (simp add: cache_get_def cache_set_def)

lemma empty_cache_miss: "\<not> truthy (fst (cache_get t Map.empty key))"
  by (simp add: cache_get_def truthy_def)

lemma translateSubtitle_translated:
  assumes "\<not> truthy (fst (cache_get t_get c (cacheKey digest content sourceLang targetLang)))"
      and "parseSubtitleContent parseSRT content (detect_format content) = cues"
      and "cues \<noteq> []"
      and "translateCues post sourceLang targetLang cues = Inr translated"
  shows "translateSubtitle digest parseSRT post t_get t_set c content sourceLang targetLang =
           \<lparr>returned = convertCuesToVTT translated,
            cache_after = cache_set t_set (snd (cache_get t_get c (cacheKey digest content sourceLang targetLang)))
                            (cacheKey digest content sourceLang targetLang) (convertCuesToVTT translated),
            sent = requests sourceLang targetLang cues\<rparr>"
  using assms(4)
  by (simp add: translateSubtitle_miss [OF assms(1)] try_block_translated [OF assms(2,3)] Let_def)

lemma translateSubtitle_after_write:
  assumes "t2 \<le> t_set + stdTTL * 1000" and "v \<noteq> []"
  shows "translateSubtitle digest parseSRT2 post2 t2 t_set2
           (cache_set t_set c (cacheKey digest content sourceLang targetLang) v)
           content sourceLang targetLang =
         \<lparr>returned = v,
          cache_after = cache_set t_set c (cacheKey digest content sourceLang targetLang) v,
          sent = []\<rparr>"
proof -
  have hit: "truthy (fst (cache_get t2
      (cache_set t_set c (cacheKey digest content sourceLang targetLang) v)
      (cacheKey digest content sourceLang targetLang)))"
    using assms by (simp add: cache_get_after_set truthy_def)
  show ?thesis
    using assms by (simp add: translateSubtitle_hit [OF hit] Let_def cache_get_after_set)
qed

section \<open>Evaluation of the example documents\<close>

lemma parse_example_vtt:
  "parseSubtitleContent parseSRT example_vtt Vtt =
     [\<lparr>start = TimeStr ''00:00:01.000'', end = TimeStr ''00:00:05.000'', text = ''Hello''\<rparr>]"
  unfolding parseSubtitleContent_def example_vtt_def by code_simp

lemma detect_example_vtt: "detect_format example_vtt = Vtt"
  by code_simp

lemma slices_example_vtt:
  "slices 0 [\<lparr>start = TimeStr ''00:00:01.000'', end = TimeStr ''00:00:05.000'', text = ''Hello''\<rparr>]
     = [[\<lparr>start = TimeStr ''00:00:01.000'', end = TimeStr ''00:00:05.000'', text = ''Hello''\<rparr>]]"
  by (simp add: slices_step slices_end batchSize_def)

lemma example_vtt_translated:
  "translateCues post_geia ''en'' ''el''
     [\<lparr>start = TimeStr ''00:00:01.000'', end = TimeStr ''00:00:05.000'', text = ''Hello''\<rparr>]
   = Inr [\<lparr>start = TimeStr ''00:00:01.000'', end = TimeStr ''00:00:05.000'', text = ''Geia''\<rparr>]"
  by code_simp

lemma example_vtt_encoded:
  "convertCuesToVTT
     [\<lparr>start = TimeStr ''00:00:01.000'', end = TimeStr ''00:00:05.000'', text = ''Geia''\<rparr>]
   = ''WEBVTT\<newline>\<newline>1\<newline>00:00:01.000 --> 00:00:05.000\<newline>Geia\<newline>\<newline>''"
  by (simp add: convertCuesToVTT_def cue_block_def newline_def digits.simps digit_char_def)

lemma parse_example_empty: "parseSubtitleContent parseSRT example_empty_vtt Vtt = []"
  unfolding parseSubtitleContent_def example_empty_vtt_def by code_simp

lemma detect_example_empty: "detect_format example_empty_vtt = Vtt"
  by code_simp

lemma parse_example_two: "parseSubtitleContent parseSRT example_two Vtt = example_two_cues"
  unfolding parseSubtitleContent_def example_two_def example_two_cues_def by code_simp

lemma detect_example_two: "detect_format example_two = Vtt"
  by code_simp

lemma slices_example_two: "slices 0 example_two_cues = [example_two_cues]"
  by (simp add: slices.simps [of 0] slices_end example_two_cues_def batchSize_def)

lemma example_two_fallback:
  "post_one_line 0 (prompt ''en'' ''el'' (map text example_two_cues)) = Text ''Kalimera''
   \<and> length (split ''Kalimera'' separator) \<noteq> length example_two_cues
   \<and> length (filter (\<lambda>line. trim line \<noteq> []) (split ''Kalimera'' newline)) < length example_two_cues"
proof -
  have "split ''Kalimera'' separator = [''Kalimera'']" by code_simp
  moreover have "filter (\<lambda>line. trim line \<noteq> []) (split ''Kalimera'' newline) = [''Kalimera'']"
    by code_simp
  ultimately show ?thesis by (simp add: post_one_line_def example_two_cues_def)
qed

lemma parse_example_eleven: "parseSubtitleContent parseSRT example_eleven Vtt = example_eleven_cues"
  unfolding parseSubtitleContent_def example_eleven_def example_eleven_cues_def by code_simp

lemma detect_example_eleven: "detect_format example_eleven = Vtt"
  by code_simp

lemma slices_example_eleven:
  "slices 0 example_eleven_cues = [take 10 example_eleven_cues, drop 10 example_eleven_cues]"
  by (simp add: slices_step slices_end batchSize_def example_eleven_cues_def)

lemma first_batch_eleven:
  "translateBatch post_second_rejected ''en'' ''el'' 0 (take 10 example_eleven_cues)
     = Inr [''b1'', ''b2'', ''b3'', ''b4'', ''b5'', ''b6'', ''b7'', ''b8'', ''b9'', ''b10'']"
  by code_simp

lemma requests_eleven_length: "length (requests s t example_eleven_cues) = 2"
  by (simp add: requests_def slices_example_eleven)

lemma detect_example_srt: "detect_format example_srt = Srt"
  by code_simp

lemma translate_example_srt:
  "translateCues post_geia ''en'' ''el'' [\<lparr>start = TimeMs 1000, end = TimeMs 5000, text = ''Hello''\<rparr>]
     = Inr [\<lparr>start = TimeMs 1000, end = TimeMs 5000, text = ''Geia''\<rparr>]"
  by code_simp

lemma encode_example_srt:
  "convertCuesToVTT [\<lparr>start = TimeMs 1000, end = TimeMs 5000, text = ''Geia''\<rparr>]
     = ''WEBVTT\<newline>\<newline>1\<newline>1000 --> 5000\<newline>Geia\<newline>\<newline>''"
  by (simp add: convertCuesToVTT_def cue_block_def newline_def digits.simps digit_char_def)

lemma detect_encoded_example_srt:
  "detect_format ''WEBVTT\<newline>\<newline>1\<newline>1000 --> 5000\<newline>Geia\<newline>\<newline>'' = Vtt"
  by code_simp

lemma parse_one_thousandth:
  "parseSrtTimestamp ''00:00:01,001'' = 2254051613498933 / 2251799813685248"
  by code_simp

lemma format_one_thousandth:
  "formatSrtTimestamp (2254051613498933 / 2251799813685248) = ''00:00:01,000''"
  by code_simp

lemma parse_one_second: "parseSrtTimestamp ''00:00:01,000'' = 1"
  by code_simp

lemma example_two_lines_translated:
  "translateCues post_two_lines ''en'' ''el'' example_two_cues = Inr example_two_translated"
  unfolding example_two_cues_def example_two_translated_def by code_simp

lemma example_two_lines_mismatch:
  "length (split ''Geia\<newline>Kalimera'' separator) \<noteq> length example_two_cues"
  unfolding example_two_cues_def by code_simp

lemma example_two_lines_simple:
  "filter (\<lambda>line. trim line \<noteq> []) (split ''Geia\<newline>Kalimera'' newline) = [''Geia'', ''Kalimera'']"
  by code_simp

lemma trim_Kalimera: "trim ''Kalimera'' = ''Kalimera''"
  by code_simp

lemma eleven_lines_first_batch:
  "translateBatch post_lines_then_rejected ''en'' ''el'' 0 (take 10 example_eleven_cues)
     = Inr [''b1'', ''b2'', ''b3'', ''b4'', ''b5'', ''b6'', ''b7'', ''b8'', ''b9'', ''b10'']"
  unfolding example_eleven_cues_def by code_simp

lemma eleven_lines_counts:
  "length (split ''b1\<newline>b2\<newline>b3\<newline>b4\<newline>b5\<newline>b6\<newline>b7\<newline>b8\<newline>b9\<newline>b10'' separator) = 1
   \<and> length (filter (\<lambda>line. trim line \<noteq> []) (split ''b1\<newline>b2\<newline>b3\<newline>b4\<newline>b5\<newline>b6\<newline>b7\<newline>b8\<newline>b9\<newline>b10'' newline)) = 10"
  by code_simp






section \<open>The claims\<close>

text \<open>
  C1. \<open>translateSubtitle\<close> is a total function: every exception of the source is a value
  of the model that the handler of line 261 turns into a result. When, after a lookup
  that found nothing, the decoding throws or the call of the model for some batch fails
  (rejected promise, malformed envelope, missing text), the string returned is the
  content that was given, and the cache gets no entry.
\<close>

theorem failure_returns_content:
  assumes "\<not> truthy (fst (cache_get t_get c (cacheKey digest content sourceLang targetLang)))"
      and "parseSubtitleContent parseSRT content (detect_format content) = cues"
      and "(detect_format content = Srt \<and> parseSRT content = None)
           \<or> (\<exists>i<length (slices 0 cues).
                 \<forall>tx. post i (prompt sourceLang targetLang (map text (slices 0 cues ! i))) \<noteq> Text tx)"
  shows "returned (translateSubtitle digest parseSRT post t_get t_set c content sourceLang targetLang)
           = content
         \<and> cache_after (translateSubtitle digest parseSRT post t_get t_set c content sourceLang targetLang)
           \<subseteq>\<^sub>m c"
proof (cases "cues = []")
  case True
  then show ?thesis
    using assms(2)
    by (simp add: translateSubtitle_miss [OF assms(1)] try_block_def Let_def cache_get_no_new_entry)
next
  case False
  have "slices 0 cues \<noteq> []" using False by (simp add: slices_step)
  have "\<not> (detect_format content = Srt \<and> parseSRT content = None)"
    using False assms(2) by (auto simp: parseSubtitleContent_def split: option.splits)
  with assms(3) obtain i where "i < length (slices 0 cues)"
    and "\<forall>tx. post i (prompt sourceLang targetLang (map text (slices 0 cues ! i))) \<noteq> Text tx"
    by blast
  then obtain e where "translateCues post sourceLang targetLang cues = Inl e"
    using translateCues_fails by blast
  then show ?thesis
    by (simp add: translateSubtitle_miss [OF assms(1)] try_block_translated [OF assms(2) False]
          Let_def cache_get_no_new_entry)
qed

theorem failure_returns_content_witness:
  "\<not> truthy (fst (cache_get 0 Map.empty (cacheKey md5_examples example_vtt ''en'' ''el'')))
   \<and> (0 < length (slices 0 (parseSubtitleContent parseSRT_throws example_vtt (detect_format example_vtt)))
       \<and> post_rejected 0 (prompt ''en'' ''el'' (map text
            (slices 0 (parseSubtitleContent parseSRT_throws example_vtt (detect_format example_vtt)) ! 0)))
          = Rejected)
   \<and> returned (translateSubtitle md5_examples parseSRT_throws post_rejected 0 5 Map.empty
        example_vtt ''en'' ''el'') = example_vtt"
proof -
  let ?cues = "[\<lparr>start = TimeStr ''00:00:01.000'', end = TimeStr ''00:00:05.000'', text = ''Hello''\<rparr>]"
  have miss: "\<not> truthy (fst (cache_get 0 Map.empty (cacheKey md5_examples example_vtt ''en'' ''el'')))"
    by (rule empty_cache_miss)
  have cues: "parseSubtitleContent parseSRT_throws example_vtt (detect_format example_vtt) = ?cues"
    by (simp add: detect_example_vtt parse_example_vtt)
  have fails: "(detect_format example_vtt = Srt \<and> parseSRT_throws example_vtt = None)
    \<or> (\<exists>i<length (slices 0 ?cues).
          \<forall>tx. post_rejected i (prompt ''en'' ''el'' (map text (slices 0 ?cues ! i))) \<noteq> Text tx)"
    by (simp add: slices_example_vtt post_rejected_def)
  show ?thesis
    using failure_returns_content [where digest = md5_examples and parseSRT = parseSRT_throws
            and post = post_rejected and content = example_vtt and cues = ?cues
            and sourceLang = "''en''" and targetLang = "''el''" and t_get = 0 and t_set = 5
            and c = Map.empty] miss cues fails
    by (simp add: slices_example_vtt post_rejected_def)
qed

text \<open>
  C2, as the code has it. For every cue sequence in which the start and the end of each
  cue are timestamp strings of the form the timing expression matches, and every line of
  each text is one that the decoder appends unchanged (\<open>plain_line\<close>), decoding the
  encoded document gives the cue sequence back.
\<close>

theorem plain_cues_round_trip:
  assumes "list_all plain_cue cues"
  shows "parseSubtitleContent parseSRT (convertCuesToVTT cues) Vtt = cues"
proof -
  have "convertCuesToVTT cues = ''WEBVTT'' @ newline @ ([] @ newline @ cue_blocks 0 cues)"
    by (simp add: convertCuesToVTT_def)
  then have "split (convertCuesToVTT cues) newline
               = split ''WEBVTT'' newline @ split [] newline @ split (cue_blocks 0 cues) newline"
    by (simp only: split_append_newline)
  also have "\<dots> = ''WEBVTT'' # [] # doc_lines 0 cues"
    by (simp add: split_no_newline split_Nil split_cue_blocks [OF assms])
  finally have lines: "split (convertCuesToVTT cues) newline = ''WEBVTT'' # [] # doc_lines 0 cues" .
  have "vtt_loop (''WEBVTT'' # [] # doc_lines 0 cues) None []
          = vtt_loop ([] # doc_lines 0 cues) None []"
    by (rule vtt_loop_skip) (simp add: trim_WEBVTT)
  also have "\<dots> = vtt_loop (doc_lines 0 cues) None []"
    by (rule vtt_loop_skip) simp
  also have "\<dots> = cues"
    by (simp add: vtt_loop_doc_lines [OF assms] push_cue_def)
  finally show ?thesis
    by (simp add: parseSubtitleContent_def lines)
qed

theorem plain_cues_round_trip_witness:
  "list_all plain_cue example_two_cues
   \<and> parseSubtitleContent parseSRT_throws (convertCuesToVTT example_two_cues) Vtt = example_two_cues"
proof -
  have plain: "list_all plain_cue example_two_cues"
    unfolding example_two_cues_def by code_simp
  show ?thesis
    using plain_cues_round_trip [OF plain, of parseSRT_throws] plain by simp
qed

text \<open>
  C2 as stated fails: a cue whose text is a number has textual timestamps and a text that
  is not empty, and the decoder takes its text line for a cue number and drops it.
\<close>

theorem number_text_is_lost:
  "parseSubtitleContent parseSRT_throws
     (convertCuesToVTT
        [\<lparr>start = TimeStr ''00:00:01.000'', end = TimeStr ''00:00:05.000'', text = ''42''\<rparr>]) Vtt
   = [\<lparr>start = TimeStr ''00:00:01.000'', end = TimeStr ''00:00:05.000'', text = []\<rparr>]
   \<and> parseSubtitleContent parseSRT_throws
     (convertCuesToVTT
        [\<lparr>start = TimeStr ''00:00:01.000'', end = TimeStr ''00:00:05.000'', text = ''42''\<rparr>]) Vtt
   \<noteq> [\<lparr>start = TimeStr ''00:00:01.000'', end = TimeStr ''00:00:05.000'', text = ''42''\<rparr>]"
proof -
  have "parseSubtitleContent parseSRT_throws
     (convertCuesToVTT
        [\<lparr>start = TimeStr ''00:00:01.000'', end = TimeStr ''00:00:05.000'', text = ''42''\<rparr>]) Vtt
   = [\<lparr>start = TimeStr ''00:00:01.000'', end = TimeStr ''00:00:05.000'', text = []\<rparr>]"
    by code_simp
  then show ?thesis by simp
qed

text \<open>
  C3, as the code has it. The callback of a batch has no handler of its own: when the call
  of the model for some batch fails hard, \<^verbatim>\<open>Promise.all\<close> is rejected and the handler of
  line 261 returns the content that was given. All the requests were sent; no cue of any
  batch is translated and the cache is not written.
\<close>

theorem hard_failure_aborts_document:
  assumes "\<not> truthy (fst (cache_get t_get c (cacheKey digest content sourceLang targetLang)))"
      and "parseSubtitleContent parseSRT content (detect_format content) = cues"
      and "i < length (slices 0 cues)"
      and "\<forall>tx. post i (prompt sourceLang targetLang (map text (slices 0 cues ! i))) \<noteq> Text tx"
  shows "translateSubtitle digest parseSRT post t_get t_set c content sourceLang targetLang =
           \<lparr>returned = content,
            cache_after = snd (cache_get t_get c (cacheKey digest content sourceLang targetLang)),
            sent = requests sourceLang targetLang cues\<rparr>"
proof -
  have some: "cues \<noteq> []"
    using assms(3) by (auto simp: slices_end)
  obtain e where "translateCues post sourceLang targetLang cues = Inl e"
    using translateCues_fails [of i cues post sourceLang targetLang] assms(3,4) by blast
  then show ?thesis
    by (simp add: translateSubtitle_miss [OF assms(1)] try_block_translated [OF assms(2) some] Let_def)
qed

theorem hard_failure_aborts_document_witness:
  "\<not> truthy (fst (cache_get 0 Map.empty (cacheKey md5_examples example_eleven ''en'' ''el'')))
   \<and> parseSubtitleContent parseSRT_throws example_eleven (detect_format example_eleven)
       = example_eleven_cues
   \<and> 1 < length (slices 0 example_eleven_cues)
   \<and> post_second_rejected 1 (prompt ''en'' ''el'' (map text (slices 0 example_eleven_cues ! 1)))
       = Rejected
   \<and> translateSubtitle md5_examples parseSRT_throws post_second_rejected 0 5 Map.empty
        example_eleven ''en'' ''el''
      = \<lparr>returned = example_eleven, cache_after = Map.empty,
         sent = requests ''en'' ''el'' example_eleven_cues\<rparr>"
proof -
  have miss: "\<not> truthy (fst (cache_get 0 Map.empty (cacheKey md5_examples example_eleven ''en'' ''el'')))"
    by (rule empty_cache_miss)
  have cues: "parseSubtitleContent parseSRT_throws example_eleven (detect_format example_eleven)
                = example_eleven_cues"
    by (simp add: detect_example_eleven parse_example_eleven)
  have two: "1 < length (slices 0 example_eleven_cues)"
    by (simp add: slices_example_eleven)
  have rejected: "\<forall>tx. post_second_rejected 1
      (prompt ''en'' ''el'' (map text (slices 0 example_eleven_cues ! 1))) \<noteq> Text tx"
    by (simp add: post_second_rejected_def)
  show ?thesis
    using hard_failure_aborts_document [where digest = md5_examples and parseSRT = parseSRT_throws
            and post = post_second_rejected and content = example_eleven
            and cues = example_eleven_cues and i = 1 and sourceLang = "''en''"
            and targetLang = "''el''" and t_get = 0 and t_set = 5 and c = Map.empty]
          miss cues two rejected
    by (simp add: post_second_rejected_def cache_get_def)
qed

text \<open>
  C3 as stated fails: with eleven cues, the first batch is translated by the model and the
  call for the second batch is rejected; the document returned is the input, in which the
  ten cues of the first batch still have their original text.
\<close>

theorem one_failed_batch_loses_all:
  "post_second_rejected 1
     (prompt ''en'' ''el'' (map text (slices 0 (parseSubtitleContent parseSRT_throws example_eleven Vtt) ! 1)))
     = Rejected
   \<and> translateBatch post_second_rejected ''en'' ''el'' 0
       (slices 0 (parseSubtitleContent parseSRT_throws example_eleven Vtt) ! 0)
     = Inr [''b1'', ''b2'', ''b3'', ''b4'', ''b5'', ''b6'', ''b7'', ''b8'', ''b9'', ''b10'']
   \<and> returned (translateSubtitle md5_examples parseSRT_throws post_second_rejected 0 5 Map.empty
        example_eleven ''en'' ''el'') = example_eleven
   \<and> map text (parseSubtitleContent parseSRT_throws
        (returned (translateSubtitle md5_examples parseSRT_throws post_second_rejected 0 5 Map.empty
           example_eleven ''en'' ''el'')) Vtt)
     = [''a1'', ''a2'', ''a3'', ''a4'', ''a5'', ''a6'', ''a7'', ''a8'', ''a9'', ''a10'', ''a11'']"
proof -
  have cues: "parseSubtitleContent parseSRT_throws example_eleven (detect_format example_eleven)
                = example_eleven_cues"
    by (simp add: detect_example_eleven parse_example_eleven)
  have some: "example_eleven_cues \<noteq> []"
    by (simp add: example_eleven_cues_def)
  have "\<forall>tx. post_second_rejected 1
      (prompt ''en'' ''el'' (map text (slices 0 example_eleven_cues ! 1))) \<noteq> Text tx"
    by (simp add: post_second_rejected_def)
  then obtain e where failed: "translateCues post_second_rejected ''en'' ''el'' example_eleven_cues = Inl e"
    using translateCues_fails [of 1 example_eleven_cues post_second_rejected "''en''" "''el''"]
    by (auto simp: slices_example_eleven)
  have out: "returned (translateSubtitle md5_examples parseSRT_throws post_second_rejected 0 5 Map.empty
        example_eleven ''en'' ''el'') = example_eleven"
    by (simp add: translateSubtitle_miss [OF empty_cache_miss] Let_def
          try_block_translated [OF cues some] failed)
  show ?thesis
    by (simp add: out parse_example_eleven slices_example_eleven first_batch_eleven
          post_second_rejected_def) (simp add: example_eleven_cues_def)
qed

text \<open>
  C4, as the code has it. In a call whose lookup found nothing and in which the model
  answered for every batch: when the answer for a batch, split at the separator, has a
  number of segments that differs from the number of cues of the batch, it is split
  again at the newlines and the blank lines are dropped. If that gives at least as many
  segments as the batch has cues, the k-th cue of the batch gets the k-th segment,
  trimmed, as its text; otherwise it gets its original text, trimmed, which for a VTT
  document is its original text. Start and end stay, and the document returned is the
  encoding of the cues so changed.
\<close>

theorem mismatch_fallback_applied:
  assumes "\<not> truthy (fst (cache_get t_get c (cacheKey digest content sourceLang targetLang)))"
      and "parseSubtitleContent parseSRT content (detect_format content) = cues"
      and "translateCues post sourceLang targetLang cues = Inr translated"
      and "i < length (slices 0 cues)"
      and "batch = slices 0 cues ! i"
      and "post i (prompt sourceLang targetLang (map text batch)) = Text translatedText"
      and "length (split translatedText separator) \<noteq> length batch"
      and "simpleSplit = filter (\<lambda>line. trim line \<noteq> []) (split translatedText newline)"
      and "k < length batch"
  shows "returned (translateSubtitle digest parseSRT post t_get t_set c content sourceLang targetLang)
           = convertCuesToVTT translated
         \<and> batch ! k = cues ! (i * batchSize + k)
         \<and> start (translated ! (i * batchSize + k)) = start (batch ! k)
         \<and> end (translated ! (i * batchSize + k)) = end (batch ! k)
         \<and> text (translated ! (i * batchSize + k))
             = (if length batch \<le> length simpleSplit
                then trim (simpleSplit ! k)
                else trim (text (batch ! k)))
         \<and> (detect_format content = Vtt \<longrightarrow> trim (text (batch ! k)) = text (batch ! k))"
proof -
  let ?r = "if length batch \<le> length simpleSplit then take (length batch) simpleSplit
            else map text batch"
  have some: "cues \<noteq> []" using assms(4) by (auto simp: slices_end)
  have out: "returned (translateSubtitle digest parseSRT post t_get t_set c content sourceLang targetLang)
               = convertCuesToVTT translated"
    by (simp add: translateSubtitle_translated [OF assms(1,2) some assms(3)])
  have k: "k < length (slices 0 cues ! i)" using assms(5,9) by simp
  have cue: "batch ! k = cues ! (i * batchSize + k)" and inside: "i * batchSize + k < length cues"
    using slices_cue [OF assms(4) k] assms(5) by simp_all
  have "translateBatch post sourceLang targetLang i (slices 0 cues ! i) = Inr ?r"
    using translateBatch_mismatch [of post i sourceLang targetLang batch translatedText]
      assms(5-8) by (simp add: Let_def)
  from translateCues_position [OF assms(3,4) k this]
  have at: "translated ! (i * batchSize + k) = (cues ! (i * batchSize + k))\<lparr>text := trim (?r ! k)\<rparr>" .
  have r: "?r ! k = (if length batch \<le> length simpleSplit then simpleSplit ! k else text (batch ! k))"
    using assms(9) by simp
  have vtt: "trim (text (batch ! k)) = text (batch ! k)" if "detect_format content = Vtt"
  proof -
    have "cues ! (i * batchSize + k) \<in> set cues" using inside by simp
    then show ?thesis
      using parse_vtt_trimmed [of parseSRT content] assms(2) that cue by simp
  qed
  show ?thesis
    using out cue vtt by (simp add: at r)
qed

theorem mismatch_fallback_applied_witness:
  "\<not> truthy (fst (cache_get 0 Map.empty (cacheKey md5_examples example_two ''en'' ''el'')))
   \<and> parseSubtitleContent parseSRT_throws example_two (detect_format example_two) = example_two_cues
   \<and> translateCues post_two_lines ''en'' ''el'' example_two_cues = Inr example_two_translated
   \<and> 0 < length (slices 0 example_two_cues)
   \<and> post_two_lines 0 (prompt ''en'' ''el'' (map text (slices 0 example_two_cues ! 0)))
       = Text ''Geia\<newline>Kalimera''
   \<and> length (split ''Geia\<newline>Kalimera'' separator) \<noteq> length (slices 0 example_two_cues ! 0)
   \<and> 1 < length (slices 0 example_two_cues ! 0)
   \<and> text (example_two_translated ! (0 * batchSize + 1)) = ''Kalimera''
   \<and> returned (translateSubtitle md5_examples parseSRT_throws post_two_lines 0 5 Map.empty
        example_two ''en'' ''el'') = convertCuesToVTT example_two_translated"
proof -
  let ?simple = "filter (\<lambda>line. trim line \<noteq> []) (split ''Geia\<newline>Kalimera'' newline)"
  have miss: "\<not> truthy (fst (cache_get 0 Map.empty (cacheKey md5_examples example_two ''en'' ''el'')))"
    by (rule empty_cache_miss)
  have cues: "parseSubtitleContent parseSRT_throws example_two (detect_format example_two)
                = example_two_cues"
    by (simp add: detect_example_two parse_example_two)
  have first: "0 < length (slices 0 example_two_cues)"
    by (simp add: slices_example_two)
  have batch: "example_two_cues = slices 0 example_two_cues ! 0"
    by (simp add: slices_example_two)
  have answer: "post_two_lines 0 (prompt ''en'' ''el'' (map text example_two_cues))
                  = Text ''Geia\<newline>Kalimera''"
    by (simp add: post_two_lines_def)
  have second: "1 < length example_two_cues"
    by (simp add: example_two_cues_def)
  note main = mismatch_fallback_applied [where digest = md5_examples and parseSRT = parseSRT_throws
      and post = post_two_lines and t_get = 0 and t_set = 5 and c = Map.empty
      and content = example_two and sourceLang = "''en''" and targetLang = "''el''"
      and cues = example_two_cues and translated = example_two_translated and i = 0
      and batch = example_two_cues and translatedText = "''Geia\<newline>Kalimera''"
      and simpleSplit = ?simple and k = 1,
      OF miss cues example_two_lines_translated first batch answer example_two_lines_mismatch
         refl second]
  have out: "returned (translateSubtitle md5_examples parseSRT_throws post_two_lines 0 5 Map.empty
        example_two ''en'' ''el'') = convertCuesToVTT example_two_translated"
    using main [THEN conjunct1] .
  have "text (example_two_translated ! (0 * batchSize + 1))
          = (if length example_two_cues \<le> length ?simple then trim (?simple ! 1)
             else trim (text (example_two_cues ! 1)))"
    using main [THEN conjunct2, THEN conjunct2, THEN conjunct2, THEN conjunct2, THEN conjunct1] .
  then have applied: "text (example_two_translated ! (0 * batchSize + 1)) = ''Kalimera''"
    by (simp add: example_two_lines_simple trim_Kalimera) (simp add: example_two_cues_def)
  show ?thesis
    using miss cues example_two_lines_translated first answer example_two_lines_mismatch second
      applied out
    by (simp add: slices_example_two)
qed

text \<open>
  C4 as stated fails: the second split of the answer for the first batch gives ten
  segments for ten cues, and the call for the second batch is rejected; no segment is
  applied, the document returned is the input with its original texts.
\<close>

theorem rejected_sibling_discards_segments:
  "post_lines_then_rejected 0
     (prompt ''en'' ''el'' (map text (slices 0 (parseSubtitleContent parseSRT_throws example_eleven Vtt) ! 0)))
     = Text ''b1\<newline>b2\<newline>b3\<newline>b4\<newline>b5\<newline>b6\<newline>b7\<newline>b8\<newline>b9\<newline>b10''
   \<and> length (slices 0 (parseSubtitleContent parseSRT_throws example_eleven Vtt) ! 0) = 10
   \<and> length (split ''b1\<newline>b2\<newline>b3\<newline>b4\<newline>b5\<newline>b6\<newline>b7\<newline>b8\<newline>b9\<newline>b10'' separator) = 1
   \<and> length (filter (\<lambda>line. trim line \<noteq> []) (split ''b1\<newline>b2\<newline>b3\<newline>b4\<newline>b5\<newline>b6\<newline>b7\<newline>b8\<newline>b9\<newline>b10'' newline)) = 10
   \<and> translateBatch post_lines_then_rejected ''en'' ''el'' 0
       (slices 0 (parseSubtitleContent parseSRT_throws example_eleven Vtt) ! 0)
     = Inr [''b1'', ''b2'', ''b3'', ''b4'', ''b5'', ''b6'', ''b7'', ''b8'', ''b9'', ''b10'']
   \<and> returned (translateSubtitle md5_examples parseSRT_throws post_lines_then_rejected 0 5 Map.empty
        example_eleven ''en'' ''el'') = example_eleven
   \<and> map text (parseSubtitleContent parseSRT_throws
        (returned (translateSubtitle md5_examples parseSRT_throws post_lines_then_rejected 0 5
           Map.empty example_eleven ''en'' ''el'')) Vtt)
     = [''a1'', ''a2'', ''a3'', ''a4'', ''a5'', ''a6'', ''a7'', ''a8'', ''a9'', ''a10'', ''a11'']"
proof -
  have cues: "parseSubtitleContent parseSRT_throws example_eleven (detect_format example_eleven)
                = example_eleven_cues"
    by (simp add: detect_example_eleven parse_example_eleven)
  have some: "example_eleven_cues \<noteq> []"
    by (simp add: example_eleven_cues_def)
  have "\<forall>tx. post_lines_then_rejected 1
      (prompt ''en'' ''el'' (map text (slices 0 example_eleven_cues ! 1))) \<noteq> Text tx"
    by (simp add: post_lines_then_rejected_def)
  then obtain e
    where failed: "translateCues post_lines_then_rejected ''en'' ''el'' example_eleven_cues = Inl e"
    using translateCues_fails [of 1 example_eleven_cues post_lines_then_rejected "''en''" "''el''"]
    by (auto simp: slices_example_eleven)
  have out: "returned (translateSubtitle md5_examples parseSRT_throws post_lines_then_rejected 0 5
        Map.empty example_eleven ''en'' ''el'') = example_eleven"
    by (simp add: translateSubtitle_miss [OF empty_cache_miss] Let_def
          try_block_translated [OF cues some] failed)
  have ten: "length (take 10 example_eleven_cues) = 10"
    by (simp add: example_eleven_cues_def)
  show ?thesis
    using eleven_lines_counts ten
    by (simp add: out parse_example_eleven slices_example_eleven eleven_lines_first_batch
          post_lines_then_rejected_def) (simp add: example_eleven_cues_def)
qed




text \<open>
  C6, as the code has it. Whatever format was detected for the input, a document that is
  translated (the lookup found nothing, there is a cue, every call of the model
  answered) is serialized by \<open>convertCuesToVTT\<close>: the string returned starts with the
  WEBVTT header and is detected as VTT. There is no SRT encoder in the translator.
\<close>

theorem output_is_vtt:
  assumes "\<not> truthy (fst (cache_get t_get c (cacheKey digest content sourceLang targetLang)))"
      and "parseSubtitleContent parseSRT content (detect_format content) = cues"
      and "cues \<noteq> []"
      and "translateCues post sourceLang targetLang cues = Inr translated"
  shows "returned (translateSubtitle digest parseSRT post t_get t_set c content sourceLang targetLang)
           = convertCuesToVTT translated
         \<and> detect_format
             (returned (translateSubtitle digest parseSRT post t_get t_set c content sourceLang targetLang))
           = Vtt"
  using assms(4)
  by (simp add: translateSubtitle_miss [OF assms(1)] try_block_translated [OF assms(2,3)] Let_def
        detect_format_convertCuesToVTT)

theorem output_is_vtt_witness:
  "\<not> truthy (fst (cache_get 0 Map.empty (cacheKey md5_examples example_srt ''en'' ''el'')))
   \<and> parseSubtitleContent parseSRT_example example_srt (detect_format example_srt) \<noteq> []
   \<and> translateCues post_geia ''en'' ''el''
        (parseSubtitleContent parseSRT_example example_srt (detect_format example_srt))
      = Inr [\<lparr>start = TimeMs 1000, end = TimeMs 5000, text = ''Geia''\<rparr>]
   \<and> returned (translateSubtitle md5_examples parseSRT_example post_geia 0 5 Map.empty
        example_srt ''en'' ''el'')
      = ''WEBVTT\<newline>\<newline>1\<newline>1000 --> 5000\<newline>Geia\<newline>\<newline>''
   \<and> detect_format (returned (translateSubtitle md5_examples parseSRT_example post_geia 0 5 Map.empty
        example_srt ''en'' ''el'')) = Vtt"
proof -
  let ?cues = "[\<lparr>start = TimeMs 1000, end = TimeMs 5000, text = ''Hello''\<rparr>]"
  have miss: "\<not> truthy (fst (cache_get 0 Map.empty (cacheKey md5_examples example_srt ''en'' ''el'')))"
    by (rule empty_cache_miss)
  have cues: "parseSubtitleContent parseSRT_example example_srt (detect_format example_srt) = ?cues"
    by (simp add: detect_example_srt parseSubtitleContent_def parseSRT_example_def)
  have some: "?cues \<noteq> []" by simp
  show ?thesis
    using output_is_vtt [where t_set = 5, OF miss cues some translate_example_srt] miss
    by (simp add: cues translate_example_srt encode_example_srt detect_encoded_example_srt)
qed

text \<open>
  C6 as stated fails: an SRT document comes back as a VTT document.
\<close>

theorem srt_input_vtt_output:
  "detect_format example_srt = Srt
   \<and> returned (translateSubtitle md5_examples parseSRT_example post_geia 0 5 Map.empty
        example_srt ''en'' ''el'')
      = ''WEBVTT\<newline>\<newline>1\<newline>1000 --> 5000\<newline>Geia\<newline>\<newline>''
   \<and> detect_format (returned (translateSubtitle md5_examples parseSRT_example post_geia 0 5 Map.empty
        example_srt ''en'' ''el'')) \<noteq> detect_format example_srt"
proof -
  have cues: "parseSubtitleContent parseSRT_example example_srt (detect_format example_srt)
                = [\<lparr>start = TimeMs 1000, end = TimeMs 5000, text = ''Hello''\<rparr>]"
    by (simp add: detect_example_srt parseSubtitleContent_def parseSRT_example_def)
  have out: "returned (translateSubtitle md5_examples parseSRT_example post_geia 0 5 Map.empty
        example_srt ''en'' ''el'')
      = ''WEBVTT\<newline>\<newline>1\<newline>1000 --> 5000\<newline>Geia\<newline>\<newline>''"
    by (simp add: translateSubtitle_miss [OF empty_cache_miss] Let_def
          try_block_translated [OF cues] translate_example_srt encode_example_srt)
  show ?thesis by (simp add: out detect_example_srt detect_encoded_example_srt)
qed

text \<open>
  C7. A first call that finds nothing in the cache, decodes at least one cue and gets an
  answer of the model for every batch writes the cache at time \<open>t_set\<close>. A second call
  with the same content and languages, whose lookup happens while the entry lives
  (\<open>t_get2 \<le> t_set + stdTTL * 1000\<close>), returns the same document from the lookup
  and sends no request, whatever the model would answer. Over both calls the model is
  asked once for each batch, by the first call only.
\<close>

theorem cache_hit_avoids_model:
  assumes "\<not> truthy (fst (cache_get t_get c (cacheKey digest content sourceLang targetLang)))"
      and "parseSubtitleContent parseSRT content (detect_format content) = cues"
      and "cues \<noteq> []"
      and "translateCues post sourceLang targetLang cues = Inr translated"
      and "first = translateSubtitle digest parseSRT post t_get t_set c content sourceLang targetLang"
      and "t_get2 \<le> t_set + stdTTL * 1000"
      and "second = translateSubtitle digest parseSRT2 post2 t_get2 t_set2 (cache_after first)
                      content sourceLang targetLang"
  shows "returned second = returned first
         \<and> sent second = []
         \<and> cache_after second = cache_after first
         \<and> sent first @ sent second = requests sourceLang targetLang cues"
proof -
  have first: "first =
      \<lparr>returned = convertCuesToVTT translated,
       cache_after = cache_set t_set (snd (cache_get t_get c (cacheKey digest content sourceLang targetLang)))
                       (cacheKey digest content sourceLang targetLang) (convertCuesToVTT translated),
       sent = requests sourceLang targetLang cues\<rparr>"
    unfolding assms(5) by (rule translateSubtitle_translated [OF assms(1-4)])
  have second: "second =
      \<lparr>returned = convertCuesToVTT translated,
       cache_after = cache_after first,
       sent = []\<rparr>"
    unfolding assms(7)
    by (simp add: first translateSubtitle_after_write [OF assms(6) convertCuesToVTT_nonempty])
  show ?thesis by (simp add: second) (simp add: first)
qed

theorem cache_hit_avoids_model_witness:
  "\<not> truthy (fst (cache_get 0 Map.empty (cacheKey md5_examples example_vtt ''en'' ''el'')))
   \<and> parseSubtitleContent parseSRT_throws example_vtt (detect_format example_vtt) \<noteq> []
   \<and> (1000::nat) \<le> 5 + stdTTL * 1000
   \<and> returned (translateSubtitle md5_examples parseSRT_throws post_rejected 1000 2000
        (cache_after (translateSubtitle md5_examples parseSRT_throws post_geia 0 5 Map.empty
           example_vtt ''en'' ''el''))
        example_vtt ''en'' ''el'')
      = ''WEBVTT\<newline>\<newline>1\<newline>00:00:01.000 --> 00:00:05.000\<newline>Geia\<newline>\<newline>''
   \<and> sent (translateSubtitle md5_examples parseSRT_throws post_rejected 1000 2000
        (cache_after (translateSubtitle md5_examples parseSRT_throws post_geia 0 5 Map.empty
           example_vtt ''en'' ''el''))
        example_vtt ''en'' ''el'') = []"
proof -
  let ?cues = "[\<lparr>start = TimeStr ''00:00:01.000'', end = TimeStr ''00:00:05.000'', text = ''Hello''\<rparr>]"
  let ?first = "translateSubtitle md5_examples parseSRT_throws post_geia 0 5 Map.empty
                  example_vtt ''en'' ''el''"
  let ?second = "translateSubtitle md5_examples parseSRT_throws post_rejected 1000 2000
                   (cache_after ?first) example_vtt ''en'' ''el''"
  have miss: "\<not> truthy (fst (cache_get 0 Map.empty (cacheKey md5_examples example_vtt ''en'' ''el'')))"
    by (rule empty_cache_miss)
  have cues: "parseSubtitleContent parseSRT_throws example_vtt (detect_format example_vtt) = ?cues"
    by (simp add: detect_example_vtt parse_example_vtt)
  have some: "?cues \<noteq> []" by simp
  have soon: "(1000::nat) \<le> 5 + stdTTL * 1000" by (simp add: stdTTL_def)
  have first: "returned ?first
      = ''WEBVTT\<newline>\<newline>1\<newline>00:00:01.000 --> 00:00:05.000\<newline>Geia\<newline>\<newline>''"
    by (simp add: translateSubtitle_translated [OF miss cues some example_vtt_translated]
          example_vtt_encoded)
  have "returned ?second = returned ?first \<and> sent ?second = []"
    using cache_hit_avoids_model [where first = ?first and second = ?second,
            OF miss cues some example_vtt_translated refl soon refl]
    by simp
  then show ?thesis using miss cues soon by (simp add: first)
qed

text \<open>
  C8. For every input whose decoding gives no cue (and that the lookup did not find in the
  cache), \<open>translateSubtitle\<close> returns the content it was given, sends no request to the
  model and adds no entry to the cache.
\<close>

theorem zero_cues_returns_content:
  assumes "\<not> truthy (fst (cache_get t_get c (cacheKey digest content sourceLang targetLang)))"
      and "parseSubtitleContent parseSRT content (detect_format content) = []"
  shows "returned (translateSubtitle digest parseSRT post t_get t_set c content sourceLang targetLang)
           = content
         \<and> sent (translateSubtitle digest parseSRT post t_get t_set c content sourceLang targetLang)
           = []
         \<and> cache_after (translateSubtitle digest parseSRT post t_get t_set c content sourceLang targetLang)
           \<subseteq>\<^sub>m c"
  using assms(2)
  by (simp add: translateSubtitle_miss [OF assms(1)] try_block_def Let_def cache_get_no_new_entry)

theorem zero_cues_witness:
  "\<not> truthy (fst (cache_get 0 Map.empty (cacheKey md5_examples example_empty_vtt ''en'' ''el'')))
   \<and> parseSubtitleContent parseSRT_throws example_empty_vtt (detect_format example_empty_vtt) = []
   \<and> returned (translateSubtitle md5_examples parseSRT_throws post_geia 0 5 Map.empty
        example_empty_vtt ''en'' ''el'') = example_empty_vtt
   \<and> sent (translateSubtitle md5_examples parseSRT_throws post_geia 0 5 Map.empty
        example_empty_vtt ''en'' ''el'') = []
   \<and> cache_after (translateSubtitle md5_examples parseSRT_throws post_geia 0 5 Map.empty
        example_empty_vtt ''en'' ''el'') \<subseteq>\<^sub>m Map.empty"
proof -
  have miss: "\<not> truthy (fst (cache_get 0 Map.empty (cacheKey md5_examples example_empty_vtt ''en'' ''el'')))"
    by (simp add: cache_get_def truthy_def)
  have none: "parseSubtitleContent parseSRT_throws example_empty_vtt (detect_format example_empty_vtt) = []"
    by (simp add: detect_example_empty parse_example_empty)
  show ?thesis
    using zero_cues_returns_content [OF miss none, of post_geia 5] miss none
    by simp
qed

text \<open>
  C9 fails on the code. The double nearest to 1.001 lies below 1.001, so that
  \<^verbatim>\<open>(seconds % 1) * 1000\<close> is a double below 1 and \<^verbatim>\<open>Math.floor\<close> makes 0 milliseconds of
  it: \<open>00:00:01,001\<close> is parsed to \<open>4508103226997866 / 2^52\<close>, formatted as
  \<open>00:00:01,000\<close> and parsed again to 1.
\<close>

theorem srt_round_trip_loses_millisecond:
  "formatSrtTimestamp (parseSrtTimestamp ''00:00:01,001'') = ''00:00:01,000''
   \<and> parseSrtTimestamp (formatSrtTimestamp (parseSrtTimestamp ''00:00:01,001'')) = 1
   \<and> parseSrtTimestamp (formatSrtTimestamp (parseSrtTimestamp ''00:00:01,001''))
       \<noteq> parseSrtTimestamp ''00:00:01,001''"
  by (simp add: parse_one_thousandth format_one_thousandth parse_one_second)

text \<open>
  C10. When every batch takes the fallback of the mismatch (the model answers, neither
  split gives enough segments), the first call still encodes the cues, whose texts are
  the original ones trimmed (for a VTT document: the original ones), and stores that
  document under the key of (content, sourceLang, targetLang) for \<open>stdTTL\<close> seconds, 24
  hours. A later call with the same arguments whose lookup happens before the entry
  expires returns that untranslated document and sends no request; after the expiry the
  lookup finds nothing.
\<close>

theorem untranslated_fallback_is_cached:
  assumes "\<not> truthy (fst (cache_get t_get c (cacheKey digest content sourceLang targetLang)))"
      and "parseSubtitleContent parseSRT content (detect_format content) = cues"
      and "cues \<noteq> []"
      and "\<forall>i<length (slices 0 cues).
             \<exists>tx. post i (prompt sourceLang targetLang (map text (slices 0 cues ! i))) = Text tx
                \<and> length (split tx separator) \<noteq> length (slices 0 cues ! i)
                \<and> length (filter (\<lambda>line. trim line \<noteq> []) (split tx newline))
                    < length (slices 0 cues ! i)"
      and "first = translateSubtitle digest parseSRT post t_get t_set c content sourceLang targetLang"
      and "t_again \<le> t_set + stdTTL * 1000"
      and "t_set + stdTTL * 1000 < t_late"
  shows "returned first = convertCuesToVTT (map (\<lambda>c. c\<lparr>text := trim (text c)\<rparr>) cues)
         \<and> (detect_format content = Vtt \<longrightarrow> returned first = convertCuesToVTT cues)
         \<and> cache_after first (cacheKey digest content sourceLang targetLang)
             = Some (returned first, t_set + stdTTL * 1000)
         \<and> translateSubtitle digest later_parse later_post t_again t_again_set (cache_after first)
              content sourceLang targetLang
             = \<lparr>returned = returned first, cache_after = cache_after first, sent = []\<rparr>
         \<and> \<not> truthy (fst (cache_get t_late (cache_after first)
                              (cacheKey digest content sourceLang targetLang)))"
proof -
  let ?key = "cacheKey digest content sourceLang targetLang"
  let ?kept = "map (\<lambda>c. c\<lparr>text := trim (text c)\<rparr>) cues"
  have first: "first =
      \<lparr>returned = convertCuesToVTT ?kept,
       cache_after = cache_set t_set (snd (cache_get t_get c ?key)) ?key (convertCuesToVTT ?kept),
       sent = requests sourceLang targetLang cues\<rparr>"
    unfolding assms(5)
    using translateCues_all_fallback [of cues post sourceLang targetLang] assms(4)
    by (intro translateSubtitle_translated [OF assms(1-3)]) blast
  have vtt: "?kept = cues" if "detect_format content = Vtt"
  proof -
    have "\<forall>c\<in>set cues. trim (text c) = text c"
      using parse_vtt_trimmed [of parseSRT content] assms(2) that by simp
    then show ?thesis by (simp add: map_idI)
  qed
  have again: "translateSubtitle digest later_parse later_post t_again t_again_set (cache_after first)
                 content sourceLang targetLang
               = \<lparr>returned = returned first, cache_after = cache_after first, sent = []\<rparr>"
    by (simp add: first translateSubtitle_after_write [OF assms(6) convertCuesToVTT_nonempty])
  have expired: "\<not> truthy (fst (cache_get t_late (cache_after first) ?key))"
    by (simp add: first cache_get_expired [OF assms(7)] truthy_def)
  have stored: "cache_after first ?key = Some (returned first, t_set + stdTTL * 1000)"
    by (simp add: first cache_set_def)
  show ?thesis
    using again expired stored vtt by (simp add: first)
qed

theorem untranslated_fallback_is_cached_witness:
  "\<not> truthy (fst (cache_get 0 Map.empty (cacheKey md5_examples example_two ''en'' ''el'')))
   \<and> parseSubtitleContent parseSRT_throws example_two (detect_format example_two) \<noteq> []
   \<and> detect_format example_two = Vtt
   \<and> (86400000::nat) \<le> 5 + stdTTL * 1000
   \<and> 5 + stdTTL * 1000 < (86400006::nat)
   \<and> returned (translateSubtitle md5_examples parseSRT_throws post_one_line 0 5 Map.empty
        example_two ''en'' ''el'') = example_two
   \<and> translateSubtitle md5_examples parseSRT_throws post_geia 86400000 86400001
        (cache_after (translateSubtitle md5_examples parseSRT_throws post_one_line 0 5 Map.empty
           example_two ''en'' ''el''))
        example_two ''en'' ''el''
      = \<lparr>returned = example_two,
         cache_after = cache_after (translateSubtitle md5_examples parseSRT_throws post_one_line
           0 5 Map.empty example_two ''en'' ''el''),
         sent = []\<rparr>
   \<and> \<not> truthy (fst (cache_get 86400006
          (cache_after (translateSubtitle md5_examples parseSRT_throws post_one_line 0 5 Map.empty
             example_two ''en'' ''el''))
          (cacheKey md5_examples example_two ''en'' ''el'')))"
proof -
  let ?first = "translateSubtitle md5_examples parseSRT_throws post_one_line 0 5 Map.empty
                  example_two ''en'' ''el''"
  have miss: "\<not> truthy (fst (cache_get 0 Map.empty (cacheKey md5_examples example_two ''en'' ''el'')))"
    by (rule empty_cache_miss)
  have cues: "parseSubtitleContent parseSRT_throws example_two (detect_format example_two)
                = example_two_cues"
    by (simp add: detect_example_two parse_example_two)
  have some: "example_two_cues \<noteq> []" by (simp add: example_two_cues_def)
  have fallback: "\<forall>i<length (slices 0 example_two_cues).
      \<exists>tx. post_one_line i (prompt ''en'' ''el'' (map text (slices 0 example_two_cues ! i))) = Text tx
         \<and> length (split tx separator) \<noteq> length (slices 0 example_two_cues ! i)
         \<and> length (filter (\<lambda>line. trim line \<noteq> []) (split tx newline))
             < length (slices 0 example_two_cues ! i)"
    using example_two_fallback by (simp add: slices_example_two)
  have alive: "(86400000::nat) \<le> 5 + stdTTL * 1000" by (simp add: stdTTL_def)
  have dead: "5 + stdTTL * 1000 < (86400006::nat)" by (simp add: stdTTL_def)
  have encoded: "convertCuesToVTT example_two_cues = example_two"
    by (simp add: convertCuesToVTT_def cue_block_def newline_def digits.simps digit_char_def
          example_two_cues_def example_two_def)
  note main = untranslated_fallback_is_cached [where first = ?first and later_parse = parseSRT_throws
            and later_post = post_geia and t_again_set = 86400001 and digest = md5_examples
            and parseSRT = parseSRT_throws and post = post_one_line and t_get = 0 and t_set = 5
            and c = Map.empty and content = example_two and sourceLang = "''en''"
            and targetLang = "''el''" and cues = example_two_cues and t_again = 86400000
            and t_late = 86400006, OF miss cues some fallback refl alive dead]
  have returned: "returned ?first = example_two"
    using main [THEN conjunct2, THEN conjunct1] detect_example_two encoded by simp
  have again: "translateSubtitle md5_examples parseSRT_throws post_geia 86400000 86400001
        (cache_after ?first) example_two ''en'' ''el''
      = \<lparr>returned = example_two, cache_after = cache_after ?first, sent = []\<rparr>"
    using main [THEN conjunct2, THEN conjunct2, THEN conjunct2, THEN conjunct1] returned by simp
  have late: "\<not> truthy (fst (cache_get 86400006 (cache_after ?first)
          (cacheKey md5_examples example_two ''en'' ''el'')))"
    using main [THEN conjunct2, THEN conjunct2, THEN conjunct2, THEN conjunct2] .
  show ?thesis
    using miss alive dead returned again late some
    by (simp add: parse_example_two detect_example_two)
qed

end
